theory Spec2Isabelle
  imports Main
begin

section \<open>The notes controller\<close>

text \<open>
  The controller keeps two module-level variables, \<^verbatim>\<open>let notes = []\<close> and
  \<^verbatim>\<open>let nextId = 1\<close>, and exports five request handlers that read and change them.
  Each handler is modelled as a function from the values it reads off the request
  (\<^verbatim>\<open>req.params.id\<close>, \<^verbatim>\<open>req.body.title\<close>, \<^verbatim>\<open>req.body.content\<close>), the clock readings
  it takes and the store before the call, to the JSON response it sends and the store
  after the call.

  \<^item> \<^verbatim>\<open>req.body\<close> is the object the JSON body parser leaves on the request, so a field of
    it is any JSON value, or \<^verbatim>\<open>undefined\<close> when the key is absent. With \<^verbatim>\<open>req.body\<close> an
    object no statement inside the \<^verbatim>\<open>try\<close> blocks throws; the \<^verbatim>\<open>catch\<close> branches (status
    500) are then unreachable and have no counterpart below.
  \<^item> JavaScript numbers are doubles. The counter takes the values 1, 2, 3, ... and these
    are exact below \<open>2^53\<close>; identifiers are modelled as \<open>int\<close>, which describes the program
    as long as fewer than \<open>2^53\<close> notes have been created.
  \<^item> \<^verbatim>\<open>new Date()\<close> reads the wall clock. Every evaluation of it is a parameter of the
    handler, in evaluation order. A timestamp is kept as the time value (milliseconds
    since the epoch) that \<^verbatim>\<open>toISOString\<close> renders; the rendering itself is not modelled.
  \<^item> \<^verbatim>\<open>res.json\<close> serialises its argument at once, so a response holds the value a note
    has at that moment and no reference into the store.
\<close>

subsection \<open>Values\<close>

text \<open>
  What a field of \<^verbatim>\<open>req.body\<close> can be: a JSON value, or \<^verbatim>\<open>undefined\<close> for an absent key.
  \<open>JNum\<close> carries an integral number; a number with a fraction behaves in the handlers
  as every non-zero number does. The text of a \<open>JStr\<close> is a character list; the handlers
  look at nothing of it but whether it is empty.
\<close>

datatype jsval =
    JUndefined
  | JNull
  | JBool bool
  | JNum int
  | JStr string
  | JArr "jsval list"
  | JObj "(string \<times> jsval) list"

text \<open>The negation \<^verbatim>\<open>!v\<close> is true on \<^verbatim>\<open>undefined\<close>, \<^verbatim>\<open>null\<close>, \<^verbatim>\<open>false\<close>, \<^verbatim>\<open>0\<close> and \<^verbatim>\<open>""\<close>.\<close>

fun truthy :: "jsval \<Rightarrow> bool" where
  "truthy JUndefined = False"
| "truthy JNull = False"
| "truthy (JBool b) = b"
| "truthy (JNum n) = (n \<noteq> 0)"
| "truthy (JStr s) = (s \<noteq> [])"
| "truthy (JArr xs) = True"
| "truthy (JObj kvs) = True"

text \<open>A field that is text when it is there at all: a string, or \<^verbatim>\<open>undefined\<close>.\<close>

fun text_or_missing :: "jsval \<Rightarrow> bool" where
  "text_or_missing JUndefined = True"
| "text_or_missing (JStr s) = True"
| "text_or_missing v = False"

type_synonym time = int

record Note =
  id_note :: int
  title :: jsval
  content :: jsval
  createdAt :: time
  updatedAt :: time

text \<open>The module-level variables; the array \<^verbatim>\<open>notes\<close> is the field \<open>notes_arr\<close>.\<close>

record store =
  notes_arr :: "Note list"
  nextId :: int

definition initial :: store where
  "initial = \<lparr>notes_arr = [], nextId = 1\<rparr>"

datatype payload = One Note | Many "Note list"

record response =
  status :: nat
  success :: bool
  message :: "string option"
  count :: "nat option"
  data :: "payload option"

subsection \<open>\<^verbatim>\<open>parseInt\<close>, \<^verbatim>\<open>find\<close>, \<^verbatim>\<open>findIndex\<close>, \<^verbatim>\<open>splice\<close>\<close>

text \<open>
  \<^verbatim>\<open>req.params.id\<close> is a JavaScript string, a sequence of UTF-16 code units; a code unit
  is kept as its number, from 0 to 65535. \<open>ascii\<close> gives the code units of a string of ASCII characters.
\<close>

type_synonym code_unit = int

type_synonym jsstring = "code_unit list"

definition ascii :: "string \<Rightarrow> jsstring" where
  "ascii s = map of_char s"

text \<open>
  \<^verbatim>\<open>parseInt(string)\<close> with no radix: leading white space is skipped, one sign is read, a
  prefix \<^verbatim>\<open>0x\<close> or \<^verbatim>\<open>0X\<close> selects radix 16 (radix 10 otherwise), and the longest run of
  digits of that radix is the value; what follows the digits is ignored. With no digit
  the result is \<^verbatim>\<open>NaN\<close>, here \<open>None\<close>: \<^verbatim>\<open>n.id === NaN\<close> is false for every \<^verbatim>\<open>n\<close>, as
  \<open>Some (id_note n) = None\<close> is.

  White space is what the language trims: TAB, LF, VT, FF, CR, the space, U+00A0,
  U+1680, U+2000 to U+200A, U+2028, U+2029, U+202F, U+205F, U+3000 and U+FEFF. The
  code units 43, 45, 48, 88 and 120 are \<^verbatim>\<open>+\<close>, \<^verbatim>\<open>-\<close>, \<^verbatim>\<open>0\<close>, \<^verbatim>\<open>X\<close> and \<^verbatim>\<open>x\<close>.
\<close>

definition is_space :: "code_unit \<Rightarrow> bool" where
  "is_space c =
     (c \<in> set [0x0009, 0x000A, 0x000B, 0x000C, 0x000D, 0x0020, 0x00A0, 0x1680,
                0x2028, 0x2029, 0x202F, 0x205F, 0x3000, 0xFEFF]
      \<or> (0x2000 \<le> c \<and> c \<le> 0x200A))"

definition digit_val :: "code_unit \<Rightarrow> int" where
  "digit_val c =
     (if 48 \<le> c \<and> c \<le> 57 then c - 48
      else if 97 \<le> c \<and> c \<le> 122 then c - 87
      else if 65 \<le> c \<and> c \<le> 90 then c - 55
      else 36)"

definition is_digit :: "int \<Rightarrow> code_unit \<Rightarrow> bool" where
  "is_digit R c = (digit_val c < R)"

definition parseInt :: "jsstring \<Rightarrow> int option" where
  "parseInt inputString =
     (let S = dropWhile is_space inputString;
          sign = (if S \<noteq> [] \<and> hd S = 45 then - 1 else 1 :: int);
          S1 = (if S \<noteq> [] \<and> (hd S = 43 \<or> hd S = 45) then tl S else S);
          hex = (take 2 S1 = [48, 120] \<or> take 2 S1 = [48, 88]);
          R = (if hex then 16 else 10 :: int);
          S2 = (if hex then drop 2 S1 else S1);
          Z = takeWhile (is_digit R) S2
      in if Z = [] then None
         else Some (sign * foldl (\<lambda>a c. a * R + digit_val c) 0 Z))"

text \<open>\<^verbatim>\<open>Array.prototype.findIndex\<close>; the result \<^verbatim>\<open>-1\<close> is \<open>None\<close>.\<close>

fun findIndex :: "('a \<Rightarrow> bool) \<Rightarrow> 'a list \<Rightarrow> nat option" where
  "findIndex P [] = None"
| "findIndex P (x # xs) = (if P x then Some 0 else map_option Suc (findIndex P xs))"

text \<open>\<^verbatim>\<open>xs.splice(i, 1)\<close>: the removed elements and the array that is left.\<close>

definition splice1 :: "nat \<Rightarrow> 'a list \<Rightarrow> 'a list \<times> 'a list" where
  "splice1 i xs = (take 1 (drop i xs), take i xs @ drop (Suc i) xs)"

text \<open>The predicate \<^verbatim>\<open>n => n.id === parseInt(id)\<close>.\<close>

definition matches :: "jsstring \<Rightarrow> Note \<Rightarrow> bool" where
  "matches ident n = (Some (id_note n) = parseInt ident)"

subsection \<open>The handlers\<close>

definition validationError :: response where
  "validationError =
     \<lparr>status = 400, success = False, message = Some ''Title and content are required'',
      count = None, data = None\<rparr>"

definition notFound :: response where
  "notFound =
     \<lparr>status = 404, success = False, message = Some ''Note not found'',
      count = None, data = None\<rparr>"

text \<open>
  The object literal bound to \<^verbatim>\<open>newNote\<close>: \<open>t1\<close> is the clock reading in the initialiser
  of \<^verbatim>\<open>createdAt\<close>, \<open>t2\<close> the one in the initialiser of \<^verbatim>\<open>updatedAt\<close>, evaluated after it.
\<close>

definition newNote :: "time \<Rightarrow> time \<Rightarrow> jsval \<Rightarrow> jsval \<Rightarrow> store \<Rightarrow> Note" where
  "newNote t1 t2 ttl cnt s =
     \<lparr>id_note = nextId s, title = ttl, content = cnt, createdAt = t1, updatedAt = t2\<rparr>"

definition createNote :: "time \<Rightarrow> time \<Rightarrow> jsval \<Rightarrow> jsval \<Rightarrow> store \<Rightarrow> response \<times> store" where
  "createNote t1 t2 ttl cnt s =
     (if \<not> truthy ttl \<or> \<not> truthy cnt then (validationError, s)
      else
        let note = newNote t1 t2 ttl cnt s;
            s1 = s\<lparr>nextId := nextId s + 1\<rparr>;
            s2 = s1\<lparr>notes_arr := notes_arr s1 @ [note]\<rparr>
        in (\<lparr>status = 201, success = True, message = Some ''Note created successfully'',
             count = None, data = Some (One note)\<rparr>, s2))"

definition getAllNotes :: "store \<Rightarrow> response \<times> store" where
  "getAllNotes s =
     (\<lparr>status = 200, success = True, message = None,
       count = Some (length (notes_arr s)), data = Some (Many (notes_arr s))\<rparr>, s)"

definition getNoteById :: "jsstring \<Rightarrow> store \<Rightarrow> response \<times> store" where
  "getNoteById ident s =
     (case find (matches ident) (notes_arr s) of
        None \<Rightarrow> (notFound, s)
      | Some note \<Rightarrow>
          (\<lparr>status = 200, success = True, message = None,
            count = None, data = Some (One note)\<rparr>, s))"

definition updateNote :: "time \<Rightarrow> jsstring \<Rightarrow> jsval \<Rightarrow> jsval \<Rightarrow> store \<Rightarrow> response \<times> store" where
  "updateNote t ident ttl cnt s =
     (case findIndex (matches ident) (notes_arr s) of
        None \<Rightarrow> (notFound, s)
      | Some noteIndex \<Rightarrow>
          let s1 = (if ttl \<noteq> JUndefined
                    then s\<lparr>notes_arr := (notes_arr s)[noteIndex := (notes_arr s ! noteIndex)\<lparr>title := ttl\<rparr>]\<rparr>
                    else s);
              s2 = (if cnt \<noteq> JUndefined
                    then s1\<lparr>notes_arr := (notes_arr s1)[noteIndex := (notes_arr s1 ! noteIndex)\<lparr>content := cnt\<rparr>]\<rparr>
                    else s1);
              s3 = s2\<lparr>notes_arr := (notes_arr s2)[noteIndex := (notes_arr s2 ! noteIndex)\<lparr>updatedAt := t\<rparr>]\<rparr>
          in (\<lparr>status = 200, success = True, message = Some ''Note updated successfully'',
               count = None, data = Some (One (notes_arr s3 ! noteIndex))\<rparr>, s3))"

definition deleteNote :: "jsstring \<Rightarrow> store \<Rightarrow> response \<times> store" where
  "deleteNote ident s =
     (case findIndex (matches ident) (notes_arr s) of
        None \<Rightarrow> (notFound, s)
      | Some noteIndex \<Rightarrow>
          (case splice1 noteIndex (notes_arr s) of
             (deletedNote # _, rest) \<Rightarrow>
               (\<lparr>status = 200, success = True, message = Some ''Note deleted successfully'',
                 count = None, data = Some (One deletedNote)\<rparr>, s\<lparr>notes_arr := rest\<rparr>)
           | ([], rest) \<Rightarrow>
               (\<lparr>status = 200, success = True, message = Some ''Note deleted successfully'',
                 count = None, data = None\<rparr>, s\<lparr>notes_arr := rest\<rparr>)))"

subsection \<open>Sequences of requests\<close>

text \<open>
  The handlers run one at a time, each to completion. A call records the handler, the
  values it reads off the request and the clock readings it would take.
\<close>

datatype call =
    Create time time jsval jsval
  | GetAll
  | GetById jsstring
  | Update time jsstring jsval jsval
  | Delete jsstring

fun handle :: "call \<Rightarrow> store \<Rightarrow> response \<times> store" where
  "handle (Create t1 t2 ttl cnt) s = createNote t1 t2 ttl cnt s"
| "handle GetAll s = getAllNotes s"
| "handle (GetById ident) s = getNoteById ident s"
| "handle (Update t ident ttl cnt) s = updateNote t ident ttl cnt s"
| "handle (Delete ident) s = deleteNote ident s"

fun run :: "call list \<Rightarrow> store \<Rightarrow> response list \<times> store" where
  "run [] s = ([], s)"
| "run (c # cs) s =
     (let (r, s1) = handle c s; (rs, s2) = run cs s1 in (r # rs, s2))"

definition responses :: "call list \<Rightarrow> response list" where
  "responses cs = fst (run cs initial)"

definition state_after :: "call list \<Rightarrow> store" where
  "state_after cs = snd (run cs initial)"

subsection \<open>Derived notions\<close>

text \<open>What the three assignments of \<^verbatim>\<open>updateNote\<close> make of a note.\<close>

definition updated :: "time \<Rightarrow> jsval \<Rightarrow> jsval \<Rightarrow> Note \<Rightarrow> Note" where
  "updated t ttl cnt n =
     n\<lparr>title := (if ttl \<noteq> JUndefined then ttl else title n),
       content := (if cnt \<noteq> JUndefined then cnt else content n),
       updatedAt := t\<rparr>"

text \<open>
  The identifiers in the array ascend strictly, and all lie below the counter.
\<close>

definition store_inv :: "store \<Rightarrow> bool" where
  "store_inv s \<longleftrightarrow>
     sorted_wrt (<) (map id_note (notes_arr s)) \<and> (\<forall>n \<in> set (notes_arr s). id_note n < nextId s)"

text \<open>The identifier a response hands out: the one in the body of a 201.\<close>

definition assigned :: "response \<Rightarrow> int list" where
  "assigned r =
     (if status r = 201
      then (case data r of Some (One n) \<Rightarrow> [id_note n] | Some (Many ns) \<Rightarrow> [] | None \<Rightarrow> [])
      else [])"

definition assigned_ids :: "call list \<Rightarrow> int list" where
  "assigned_ids cs = concat (map assigned (responses cs))"

text \<open>
  The clock readings of a sequence of calls, in the order they are taken. A creation that
  is rejected and an update that finds no note never get to \<^verbatim>\<open>new Date()\<close>; the readings
  such a call carries are the ones the clock would have given, and nothing depends on them.
\<close>

fun readings :: "call \<Rightarrow> time list" where
  "readings (Create t1 t2 ttl cnt) = [t1, t2]"
| "readings (Update t ident ttl cnt) = [t]"
| "readings c = []"

definition clock :: "call list \<Rightarrow> time list" where
  "clock cs = concat (map readings cs)"

text \<open>
  A client puts an identifier into the path with a template literal,
  \<^verbatim>\<open>`/api/v1/notes/${testNoteId}`\<close>; for an integer that is its decimal numeral.
\<close>

definition digit_char :: "nat \<Rightarrow> code_unit" where
  "digit_char d = 48 + int d"

function digits :: "nat \<Rightarrow> jsstring" where
  "digits n = (if n < 10 then [digit_char n] else digits (n div 10) @ [digit_char (n mod 10)])"
  by pat_completeness auto
termination
  by (relation "measure id") auto

declare digits.simps [simp del]

definition toString :: "int \<Rightarrow> jsstring" where
  "toString n = (if n < 0 then 45 # digits (nat (- n)) else digits (nat n))"

section \<open>Arrays and handlers, case by case\<close>

lemma findIndex_None: "findIndex P xs = None \<longleftrightarrow> (\<forall>x \<in> set xs. \<not> P x)"
  by (induction xs) auto

lemma findIndex_Some:
  "findIndex P xs = Some i \<Longrightarrow> i < length xs \<and> P (xs ! i) \<and> (\<forall>j < i. \<not> P (xs ! j))"
proof (induction xs arbitrary: i)
  case Nil
  then show ?case by simp
next
  case (Cons x xs)
  show ?case
  proof (cases "P x")
    case True
    with Cons.prems show ?thesis by simp
  next
    case False
    with Cons.prems obtain k where k: "findIndex P xs = Some k" "i = Suc k"
      by auto
    from Cons.IH [OF k(1)] False k(2) show ?thesis
      by (auto simp: less_Suc_eq_0_disj)
  qed
qed

lemma find_findIndex: "find P xs = map_option (\<lambda>i. xs ! i) (findIndex P xs)"
  by (induction xs) (auto simp: option.map_comp comp_def)

lemma splice1_at:
  "i < length xs \<Longrightarrow> splice1 i xs = ([xs ! i], take i xs @ drop (Suc i) xs)"
  by (simp add: splice1_def take_Suc_conv_app_nth Cons_nth_drop_Suc [symmetric])

lemma createNote_rejected:
  "\<not> truthy ttl \<or> \<not> truthy cnt \<Longrightarrow> createNote t1 t2 ttl cnt s = (validationError, s)"
  by (simp add: createNote_def)

lemma createNote_accepted:
  assumes "truthy ttl" "truthy cnt"
  shows "createNote t1 t2 ttl cnt s =
     (\<lparr>status = 201, success = True, message = Some ''Note created successfully'',
       count = None, data = Some (One (newNote t1 t2 ttl cnt s))\<rparr>,
      \<lparr>notes_arr = notes_arr s @ [newNote t1 t2 ttl cnt s], nextId = nextId s + 1\<rparr>)"
  using assms by (simp add: createNote_def Let_def)

lemma updateNote_missing:
  "findIndex (matches ident) (notes_arr s) = None \<Longrightarrow> updateNote t ident ttl cnt s = (notFound, s)"
  by (simp add: updateNote_def)

lemma updateNote_found:
  assumes "findIndex (matches ident) (notes_arr s) = Some i"
  shows "updateNote t ident ttl cnt s =
     (\<lparr>status = 200, success = True, message = Some ''Note updated successfully'',
       count = None, data = Some (One (updated t ttl cnt (notes_arr s ! i)))\<rparr>,
      s\<lparr>notes_arr := (notes_arr s)[i := updated t ttl cnt (notes_arr s ! i)]\<rparr>)"
proof -
  from findIndex_Some [OF assms] have "i < length (notes_arr s)" by simp
  then show ?thesis
    using assms by (simp add: updateNote_def updated_def Let_def)
qed

lemma deleteNote_missing:
  "findIndex (matches ident) (notes_arr s) = None \<Longrightarrow> deleteNote ident s = (notFound, s)"
  by (simp add: deleteNote_def)

lemma deleteNote_found:
  assumes "findIndex (matches ident) (notes_arr s) = Some i"
  shows "deleteNote ident s =
     (\<lparr>status = 200, success = True, message = Some ''Note deleted successfully'',
       count = None, data = Some (One (notes_arr s ! i))\<rparr>,
      s\<lparr>notes_arr := take i (notes_arr s) @ drop (Suc i) (notes_arr s)\<rparr>)"
proof -
  from findIndex_Some [OF assms] have "i < length (notes_arr s)" by simp
  then show ?thesis
    using assms by (simp add: deleteNote_def splice1_at)
qed

lemma getNoteById_missing:
  "findIndex (matches ident) (notes_arr s) = None \<Longrightarrow> getNoteById ident s = (notFound, s)"
  by (simp add: getNoteById_def find_findIndex)

lemma getNoteById_found:
  "findIndex (matches ident) (notes_arr s) = Some i \<Longrightarrow>
   getNoteById ident s =
     (\<lparr>status = 200, success = True, message = None, count = None,
       data = Some (One (notes_arr s ! i))\<rparr>, s)"
  by (simp add: getNoteById_def find_findIndex)

lemma store_inv_initial: "store_inv initial"
  by (simp add: store_inv_def initial_def)

lemma sorted_wrt_remove_nth:
  "sorted_wrt R xs \<Longrightarrow> sorted_wrt R (take i xs @ drop (Suc i) xs)"
proof (induction xs arbitrary: i)
  case Nil
  then show ?case by simp
next
  case (Cons x xs)
  show ?case
  proof (cases i)
    case 0
    with Cons.prems show ?thesis by simp
  next
    case (Suc k)
    from Cons.prems have "sorted_wrt R (take k xs @ drop (Suc k) xs)"
      by (intro Cons.IH) simp
    moreover from Cons.prems have "\<forall>y \<in> set (take k xs @ drop (Suc k) xs). R x y"
      by (auto dest: in_set_takeD in_set_dropD)
    ultimately show ?thesis using Suc by simp
  qed
qed

lemma id_note_updated [simp]: "id_note (updated t ttl cnt n) = id_note n"
  by (simp add: updated_def)

lemma createdAt_updated [simp]: "createdAt (updated t ttl cnt n) = createdAt n"
  by (simp add: updated_def)

lemma map_id_note_update:
  "map id_note (xs[i := updated t ttl cnt (xs ! i)]) = map id_note xs"
proof (cases "i < length xs")
  case True
  then have "(map id_note xs)[i := id_note (xs ! i)] = (map id_note xs)[i := map id_note xs ! i]"
    by simp
  then show ?thesis by (simp add: map_update del: nth_map)
next
  case False
  then have "xs[i := updated t ttl cnt (xs ! i)] = xs" by (simp add: not_less list_update_beyond)
  then show ?thesis by (rule arg_cong)
qed

lemma store_inv_createNote: "store_inv s \<Longrightarrow> store_inv (snd (createNote t1 t2 ttl cnt s))"
proof (cases "truthy ttl \<and> truthy cnt")
  case True
  assume "store_inv s"
  with True show ?thesis
    by (auto simp: createNote_accepted store_inv_def sorted_wrt_append newNote_def)
next
  case False
  assume "store_inv s"
  with False show ?thesis by (simp add: createNote_rejected)
qed

lemma store_inv_updateNote: "store_inv s \<Longrightarrow> store_inv (snd (updateNote t ident ttl cnt s))"
proof (cases "findIndex (matches ident) (notes_arr s)")
  case None
  assume "store_inv s"
  with None show ?thesis by (simp add: updateNote_missing)
next
  case (Some i)
  assume inv: "store_inv s"
  from findIndex_Some [OF Some] have i: "i < length (notes_arr s)" by simp
  have "\<forall>n \<in> set ((notes_arr s)[i := updated t ttl cnt (notes_arr s ! i)]). id_note n < nextId s"
  proof
    fix n assume "n \<in> set ((notes_arr s)[i := updated t ttl cnt (notes_arr s ! i)])"
    then have "n = updated t ttl cnt (notes_arr s ! i) \<or> n \<in> set (notes_arr s)"
      using set_update_subset_insert by fastforce
    with inv i show "id_note n < nextId s"
      by (auto simp: store_inv_def)
  qed
  with inv show ?thesis
    by (simp add: updateNote_found [OF Some] store_inv_def map_id_note_update)
qed

lemma store_inv_deleteNote: "store_inv s \<Longrightarrow> store_inv (snd (deleteNote ident s))"
proof (cases "findIndex (matches ident) (notes_arr s)")
  case None
  assume "store_inv s"
  with None show ?thesis by (simp add: deleteNote_missing)
next
  case (Some i)
  assume inv: "store_inv s"
  have "sorted_wrt (<) (take i (map id_note (notes_arr s)) @ drop (Suc i) (map id_note (notes_arr s)))"
    using inv by (intro sorted_wrt_remove_nth) (simp add: store_inv_def)
  moreover have "\<forall>n \<in> set (take i (notes_arr s) @ drop (Suc i) (notes_arr s)). id_note n < nextId s"
    using inv by (auto simp: store_inv_def dest: in_set_takeD in_set_dropD)
  ultimately show ?thesis
    by (simp add: deleteNote_found [OF Some] store_inv_def take_map drop_map)
qed

lemma store_inv_handle: "store_inv s \<Longrightarrow> store_inv (snd (handle c s))"
  by (cases c)
    (simp_all add: store_inv_createNote store_inv_updateNote store_inv_deleteNote
      getAllNotes_def getNoteById_def split: option.split)

lemma store_inv_run: "store_inv s \<Longrightarrow> store_inv (snd (run cs s))"
proof (induction cs arbitrary: s)
  case Nil
  then show ?case by simp
next
  case (Cons c cs)
  from Cons.prems have "store_inv (snd (handle c s))" by (rule store_inv_handle)
  then have "store_inv (snd (run cs (snd (handle c s))))" by (rule Cons.IH)
  then show ?case by (simp add: split_beta Let_def)
qed

lemma store_inv_state_after: "store_inv (state_after cs)"
  unfolding state_after_def by (rule store_inv_run [OF store_inv_initial])

section \<open>Decimal numerals are read back by \<^verbatim>\<open>parseInt\<close>\<close>

lemma digit_val_digit_char: "d < 10 \<Longrightarrow> digit_val (digit_char d) = int d"
  by (simp add: digit_val_def digit_char_def)

lemma is_digit_digit_char: "d < 10 \<Longrightarrow> is_digit 10 (digit_char d)"
  by (simp add: is_digit_def digit_val_digit_char)

lemma digit_val_less_10: "is_digit 10 c \<Longrightarrow> \<not> is_space c \<and> c \<noteq> 43 \<and> c \<noteq> 45 \<and> c \<noteq> 120 \<and> c \<noteq> 88"
  by (auto simp: is_digit_def digit_val_def is_space_def split: if_splits)

lemma digits_all: "\<forall>c \<in> set (digits n). is_digit 10 c"
proof (induction n rule: digits.induct)
  case (1 n)
  show ?case
  proof (cases "n < 10")
    case True
    then show ?thesis by (subst digits.simps) (simp add: is_digit_digit_char)
  next
    case False
    with 1 show ?thesis by (subst digits.simps) (simp add: is_digit_digit_char)
  qed
qed

lemma digits_nonempty: "digits n \<noteq> []"
  by (subst digits.simps) simp

lemma digits_value: "foldl (\<lambda>a c. a * 10 + digit_val c) 0 (digits n) = int n"
proof (induction n rule: digits.induct)
  case (1 n)
  show ?case
  proof (cases "n < 10")
    case True
    then show ?thesis by (subst digits.simps) (simp add: digit_val_digit_char)
  next
    case False
    have "int (n div 10) * 10 + int (n mod 10) = int n"
      by presburger
    with False 1 show ?thesis by (subst digits.simps) (simp add: digit_val_digit_char)
  qed
qed

lemma no_hex_prefix:
  assumes "\<forall>c \<in> set ds. is_digit 10 c"
  shows "take 2 ds \<noteq> [48, 120] \<and> take 2 ds \<noteq> [48, 88]"
proof (cases ds)
  case Nil
  then show ?thesis by simp
next
  case (Cons c cs)
  show ?thesis
  proof (cases cs)
    case Nil
    with Cons show ?thesis by simp
  next
    case (Cons d es)
    with assms \<open>ds = c # cs\<close> have "is_digit 10 d" by simp
    then have "d \<noteq> 120 \<and> d \<noteq> 88" using digit_val_less_10 by blast
    with Cons \<open>ds = c # cs\<close> show ?thesis by simp
  qed
qed

lemma parseInt_digit_string:
  assumes all: "\<forall>c \<in> set ds. is_digit 10 c" and ne: "ds \<noteq> []"
  shows "parseInt ds = Some (foldl (\<lambda>a c. a * 10 + digit_val c) 0 ds)"
proof -
  from ne obtain c cs where ds: "ds = c # cs" by (cases ds) auto
  from all ds have "is_digit 10 c" by simp
  note c = digit_val_less_10 [OF this]
  have dw: "dropWhile is_space ds = ds"
    using ds c by simp
  have hd: "hd ds \<noteq> 43" "hd ds \<noteq> 45"
    using ds c by simp_all
  have tw: "takeWhile (is_digit 10) ds = ds"
    using all by (simp add: takeWhile_eq_all_conv)
  show ?thesis
    unfolding parseInt_def dw using ne no_hex_prefix [OF all] hd by (simp add: Let_def tw)
qed

lemma parseInt_minus_digit_string:
  assumes all: "\<forall>c \<in> set ds. is_digit 10 c" and ne: "ds \<noteq> []"
  shows "parseInt (45 # ds) = Some (- foldl (\<lambda>a c. a * 10 + digit_val c) 0 ds)"
proof -
  have dw: "dropWhile is_space (45 # ds) = 45 # ds"
    by (simp add: is_space_def)
  have tw: "takeWhile (is_digit 10) ds = ds"
    using all by (simp add: takeWhile_eq_all_conv)
  show ?thesis
    unfolding parseInt_def dw using ne no_hex_prefix [OF all] by (simp add: Let_def tw)
qed

lemma parseInt_toString: "parseInt (toString n) = Some n"
proof (cases "n < 0")
  case True
  then show ?thesis
    by (simp add: toString_def parseInt_minus_digit_string [OF digits_all digits_nonempty] digits_value)
next
  case False
  then show ?thesis
    by (simp add: toString_def parseInt_digit_string [OF digits_all digits_nonempty] digits_value)
qed

subsection \<open>A numeral followed by anything, and strings with no numeral\<close>

lemma digits_no_leading_zero: "0 < n \<Longrightarrow> hd (digits n) \<noteq> 48"
proof (induction n rule: digits.induct)
  case (1 n)
  show ?case
  proof (cases "n < 10")
    case True
    with "1.prems" show ?thesis by (subst digits.simps) (simp add: digit_char_def)
  next
    case False
    then have "0 < n div 10" by simp
    with False 1 have "hd (digits (n div 10)) \<noteq> 48" by simp
    with False show ?thesis by (subst digits.simps) (simp add: digits_nonempty)
  qed
qed

lemma parseInt_unsigned_decimal:
  assumes "dropWhile is_space s = S" and "S = [] \<or> (hd S \<noteq> 43 \<and> hd S \<noteq> 45)"
    and "take 2 S \<noteq> [48, 120]" and "take 2 S \<noteq> [48, 88]"
    and "takeWhile (is_digit 10) S = Z"
  shows "parseInt s = (if Z = [] then None else Some (foldl (\<lambda>a c. a * 10 + digit_val c) 0 Z))"
  unfolding parseInt_def assms(1) using assms(2-4) by (auto simp: Let_def assms(5))

lemma parseInt_decimal_prefix:
  assumes ws: "\<forall>c \<in> set ws. is_space c"
    and ds: "\<forall>c \<in> set ds. is_digit 10 c" and ne: "ds \<noteq> []" and nz: "hd ds \<noteq> 48"
    and rest: "rest = [] \<or> \<not> is_digit 10 (hd rest)"
  shows "parseInt (ws @ ds @ rest) = Some (foldl (\<lambda>a c. a * 10 + digit_val c) 0 ds)"
proof -
  from ne obtain d ds' where d: "ds = d # ds'" by (cases ds) auto
  from ds d have "is_digit 10 d" by simp
  note dd = digit_val_less_10 [OF this]
  have dw: "dropWhile is_space (ws @ ds @ rest) = ds @ rest"
    using ws dd d by (simp add: dropWhile_append2)
  have sign: "ds @ rest = [] \<or> (hd (ds @ rest) \<noteq> 43 \<and> hd (ds @ rest) \<noteq> 45)"
    using dd d by simp
  have hex: "take 2 (ds @ rest) \<noteq> [48, 120]" "take 2 (ds @ rest) \<noteq> [48, 88]"
    using nz d by auto
  have "takeWhile (is_digit 10) rest = []"
    using rest by (cases rest) auto
  then have tw: "takeWhile (is_digit 10) (ds @ rest) = ds"
    using ds by (simp add: takeWhile_append2)
  from parseInt_unsigned_decimal [OF dw sign hex tw] ne show ?thesis by simp
qed

lemma parseInt_prefix_of_id:
  assumes "0 < k" and "\<forall>c \<in> set ws. is_space c" and "rest = [] \<or> \<not> is_digit 10 (hd rest)"
  shows "parseInt (ws @ toString k @ rest) = Some k"
proof -
  from assms(1) have ts: "toString k = digits (nat k)" by (simp add: toString_def)
  from assms(1) have "hd (digits (nat k)) \<noteq> 48" by (intro digits_no_leading_zero) simp
  from parseInt_decimal_prefix [OF assms(2) digits_all digits_nonempty this assms(3)]
  show ?thesis using assms(1) by (simp add: ts digits_value)
qed

lemma parseInt_NaN:
  assumes ws: "\<forall>c \<in> set ws. is_space c"
    and rest: "rest = [] \<or> (\<not> is_space (hd rest) \<and> \<not> is_digit 10 (hd rest) \<and> hd rest \<noteq> 43 \<and> hd rest \<noteq> 45)"
  shows "parseInt (ws @ rest) = None"
proof -
  have dw: "dropWhile is_space (ws @ rest) = rest"
    using ws rest by (cases rest) (simp_all add: dropWhile_append2)
  have sign: "rest = [] \<or> (hd rest \<noteq> 43 \<and> hd rest \<noteq> 45)"
    using rest by auto
  have "rest = [] \<or> hd rest \<noteq> 48"
    using rest by (auto simp: is_digit_def digit_val_def)
  then have hex: "take 2 rest \<noteq> [48, 120]" "take 2 rest \<noteq> [48, 88]"
    by (cases rest; auto)+
  have tw: "takeWhile (is_digit 10) rest = []"
    using rest by (cases rest) auto
  from parseInt_unsigned_decimal [OF dw sign hex tw] show ?thesis by simp
qed

section \<open>Identifiers\<close>

lemma handle_assigned:
  "assigned (fst (handle c s)) = [] \<and> nextId (snd (handle c s)) = nextId s \<or>
   assigned (fst (handle c s)) = [nextId s] \<and> nextId (snd (handle c s)) = nextId s + 1"
proof (cases c)
  case (Create t1 t2 ttl cnt)
  show ?thesis
  proof (cases "truthy ttl \<and> truthy cnt")
    case True
    with Create show ?thesis
      by (simp add: createNote_accepted assigned_def newNote_def)
  next
    case False
    with Create show ?thesis
      by (simp add: createNote_rejected assigned_def validationError_def)
  qed
next
  case GetAll
  then show ?thesis by (simp add: getAllNotes_def assigned_def)
next
  case (GetById ident)
  then show ?thesis
    by (simp add: getNoteById_def assigned_def notFound_def split: option.split)
next
  case (Update t ident ttl cnt)
  then show ?thesis
    by (cases "findIndex (matches ident) (notes_arr s)")
      (simp_all add: updateNote_missing updateNote_found assigned_def notFound_def)
next
  case (Delete ident)
  then show ?thesis
    by (cases "findIndex (matches ident) (notes_arr s)")
      (simp_all add: deleteNote_missing deleteNote_found assigned_def notFound_def)
qed

lemma fst_run_Cons: "fst (run (c # cs) s) = fst (handle c s) # fst (run cs (snd (handle c s)))"
  by (simp add: split_beta Let_def)

lemma snd_run_Cons: "snd (run (c # cs) s) = snd (run cs (snd (handle c s)))"
  by (simp add: split_beta Let_def)

lemma run_assigned:
  "sorted_wrt (<) (concat (map assigned (fst (run cs s)))) \<and>
   (\<forall>i \<in> set (concat (map assigned (fst (run cs s)))). nextId s \<le> i)"
proof (induction cs arbitrary: s)
  case Nil
  show ?case by simp
next
  case (Cons c cs)
  let ?s1 = "snd (handle c s)"
  let ?rest = "concat (map assigned (fst (run cs ?s1)))"
  note run = fst_run_Cons [of c cs s]
  from Cons.IH [of ?s1] have sorted: "sorted_wrt (<) ?rest"
    and lower: "\<forall>i \<in> set ?rest. nextId ?s1 \<le> i" by simp_all
  from handle_assigned [of c s] show ?case
  proof
    assume "assigned (fst (handle c s)) = [] \<and> nextId ?s1 = nextId s"
    with sorted lower show ?thesis by (simp add: run del: run.simps)
  next
    assume "assigned (fst (handle c s)) = [nextId s] \<and> nextId ?s1 = nextId s + 1"
    with sorted lower show ?thesis by (fastforce simp: run simp del: run.simps)
  qed
qed

text \<open>
  Claim C1. Over every sequence of calls from the initial store, the identifiers handed
  out by successful creations, in the order of the calls, ascend strictly: each is
  greater than every identifier handed out before it, so none is handed out twice,
  whatever was deleted in between.
\<close>

theorem ids_strictly_increasing:
  "sorted_wrt (<) (assigned_ids cs) \<and> distinct (assigned_ids cs)"
proof -
  have "sorted_wrt (<) (assigned_ids cs)"
    using run_assigned [of cs initial] by (simp add: assigned_ids_def responses_def)
  moreover from this have "distinct (assigned_ids cs)"
    by (simp add: strict_sorted_iff)
  ultimately show ?thesis ..
qed

theorem ids_strictly_increasing_witness:
  "assigned_ids [Create 5 6 (JStr ''a'') (JStr ''b''), Delete (ascii ''1''),
                 Create 7 7 (JStr ''c'') (JStr ''d'')] = [1, 2]
   \<and> sorted_wrt (<) (assigned_ids [Create 5 6 (JStr ''a'') (JStr ''b''), Delete (ascii ''1''),
                                     Create 7 7 (JStr ''c'') (JStr ''d'')])
   \<and> distinct (assigned_ids [Create 5 6 (JStr ''a'') (JStr ''b''), Delete (ascii ''1''),
                                Create 7 7 (JStr ''c'') (JStr ''d'')])"
proof -
  have "assigned_ids [Create 5 6 (JStr ''a'') (JStr ''b''), Delete (ascii ''1''),
                      Create 7 7 (JStr ''c'') (JStr ''d'')] = [1, 2]"
    by code_simp
  with ids_strictly_increasing [of "[Create 5 6 (JStr ''a'') (JStr ''b''), Delete (ascii ''1''),
                                     Create 7 7 (JStr ''c'') (JStr ''d'')]"]
  show ?thesis by blast
qed

section \<open>The claims about single calls and about sequences of calls\<close>

lemma truthy_text: "text_or_missing v \<Longrightarrow> truthy v \<longleftrightarrow> v \<noteq> JUndefined \<and> v \<noteq> JStr []"
  by (cases v) simp_all

lemma status_createNote:
  "status (fst (createNote t1 t2 ttl cnt s)) = (if truthy ttl \<and> truthy cnt then 201 else 400)"
  by (simp add: createNote_def validationError_def Let_def)

text \<open>
  Claim C2. For a title and a content that are each a string or absent, \<^verbatim>\<open>createNote\<close>
  answers 400 exactly when one of them is absent or the empty string; the answer is then
  the fixed body with the message \<^verbatim>\<open>Title and content are required\<close> and the store is the
  one before the call, array and counter alike. The four calls \<^verbatim>\<open>("", "x")\<close>, \<^verbatim>\<open>("x", "")\<close>,
  \<^verbatim>\<open>("", "")\<close> and \<^verbatim>\<open>(undefined, "x")\<close> are instances.
\<close>

theorem createNote_validation:
  assumes "text_or_missing ttl" and "text_or_missing cnt"
  shows "(status (fst (createNote t1 t2 ttl cnt s)) = 400 \<longleftrightarrow>
            ttl = JUndefined \<or> ttl = JStr [] \<or> cnt = JUndefined \<or> cnt = JStr [])
       \<and> (status (fst (createNote t1 t2 ttl cnt s)) = 400 \<longrightarrow>
            createNote t1 t2 ttl cnt s = (validationError, s))
       \<and> message validationError = Some ''Title and content are required''
       \<and> createNote t1 t2 (JStr []) (JStr ''x'') s = (validationError, s)
       \<and> createNote t1 t2 (JStr ''x'') (JStr []) s = (validationError, s)
       \<and> createNote t1 t2 (JStr []) (JStr []) s = (validationError, s)
       \<and> createNote t1 t2 JUndefined (JStr ''x'') s = (validationError, s)"
proof -
  have "status (fst (createNote t1 t2 ttl cnt s)) = 400 \<longleftrightarrow>
          ttl = JUndefined \<or> ttl = JStr [] \<or> cnt = JUndefined \<or> cnt = JStr []"
    using assms by (auto simp: status_createNote truthy_text)
  moreover have "status (fst (createNote t1 t2 ttl cnt s)) = 400 \<longrightarrow>
          createNote t1 t2 ttl cnt s = (validationError, s)"
    by (simp add: status_createNote createNote_rejected split: if_splits)
  moreover have "message validationError = Some ''Title and content are required''"
    by (simp add: validationError_def)
  ultimately show ?thesis
    by (simp add: createNote_rejected)
qed

theorem createNote_validation_witness:
  "text_or_missing (JStr ''x'') \<and> text_or_missing JUndefined
   \<and> status (fst (createNote 10 10 (JStr ''x'') JUndefined initial)) = 400
   \<and> createNote 10 10 (JStr ''x'') JUndefined initial = (validationError, initial)
   \<and> status (fst (createNote 10 10 (JStr ''x'') (JStr ''y'') initial)) \<noteq> 400"
proof -
  have "text_or_missing (JStr ''x'')" and "text_or_missing JUndefined" and "text_or_missing (JStr ''y'')"
    by simp_all
  from createNote_validation [OF this(1,2), of 10 10 initial]
       createNote_validation [OF this(1,3), of 10 10 initial]
  show ?thesis by simp
qed

lemma status_by_findIndex:
  "status (fst (getNoteById ident s)) = (if findIndex (matches ident) (notes_arr s) = None then 404 else 200)"
  "status (fst (updateNote t ident ttl cnt s)) = (if findIndex (matches ident) (notes_arr s) = None then 404 else 200)"
  "status (fst (deleteNote ident s)) = (if findIndex (matches ident) (notes_arr s) = None then 404 else 200)"
  by (cases "findIndex (matches ident) (notes_arr s)";
      simp add: getNoteById_missing getNoteById_found updateNote_missing updateNote_found
        deleteNote_missing deleteNote_found notFound_def)+

text \<open>
  Claim C4, as amended. \<^verbatim>\<open>getNoteById\<close>, \<^verbatim>\<open>updateNote\<close> and \<^verbatim>\<open>deleteNote\<close> answer 404
  exactly when no note in the array has the identifier that \<^verbatim>\<open>parseInt\<close> reads from the
  path parameter; the answer is then the fixed not-found body and the store is unchanged.
  A parameter from which \<^verbatim>\<open>parseInt\<close> reads no number matches nothing and gets the same
  404; no other failure status occurs, the answer is 200 or 404. What \<^verbatim>\<open>parseInt\<close> reads:
  white space, then the decimal numeral of a positive \<open>k\<close>, then anything that does not
  go on with a digit, is read as \<open>k\<close> and so answers 404 exactly when no note has the
  identifier \<open>k\<close>; white space followed by nothing, or by a character that is neither a
  digit nor a sign, is read as no number.
\<close>

theorem not_found_exactly_when_no_match:
  "(status (fst (getNoteById ident s)) = 404 \<longleftrightarrow>
      \<not> (\<exists>n \<in> set (notes_arr s). Some (id_note n) = parseInt ident))
   \<and> (status (fst (updateNote t ident ttl cnt s)) = 404 \<longleftrightarrow>
      \<not> (\<exists>n \<in> set (notes_arr s). Some (id_note n) = parseInt ident))
   \<and> (status (fst (deleteNote ident s)) = 404 \<longleftrightarrow>
      \<not> (\<exists>n \<in> set (notes_arr s). Some (id_note n) = parseInt ident))
   \<and> (\<not> (\<exists>n \<in> set (notes_arr s). Some (id_note n) = parseInt ident) \<longrightarrow>
        getNoteById ident s = (notFound, s) \<and>
        updateNote t ident ttl cnt s = (notFound, s) \<and>
        deleteNote ident s = (notFound, s))
   \<and> (parseInt ident = None \<longrightarrow>
        getNoteById ident s = (notFound, s) \<and>
        updateNote t ident ttl cnt s = (notFound, s) \<and>
        deleteNote ident s = (notFound, s))
   \<and> status (fst (getNoteById ident s)) \<in> {200, 404}
   \<and> status (fst (updateNote t ident ttl cnt s)) \<in> {200, 404}
   \<and> status (fst (deleteNote ident s)) \<in> {200, 404}
   \<and> (0 < k \<and> (\<forall>c \<in> set ws. is_space c) \<and> (rest = [] \<or> \<not> is_digit 10 (hd rest)) \<longrightarrow>
        parseInt (ws @ toString k @ rest) = Some k \<and>
        (status (fst (getNoteById (ws @ toString k @ rest) s)) = 404 \<longleftrightarrow>
           \<not> (\<exists>n \<in> set (notes_arr s). id_note n = k)) \<and>
        (status (fst (updateNote t (ws @ toString k @ rest) ttl cnt s)) = 404 \<longleftrightarrow>
           \<not> (\<exists>n \<in> set (notes_arr s). id_note n = k)) \<and>
        (status (fst (deleteNote (ws @ toString k @ rest) s)) = 404 \<longleftrightarrow>
           \<not> (\<exists>n \<in> set (notes_arr s). id_note n = k)))
   \<and> ((\<forall>c \<in> set ws. is_space c) \<and>
        (junk = [] \<or> (\<not> is_space (hd junk) \<and> \<not> is_digit 10 (hd junk) \<and>
                       hd junk \<noteq> 43 \<and> hd junk \<noteq> 45)) \<longrightarrow>
        parseInt (ws @ junk) = None \<and>
        getNoteById (ws @ junk) s = (notFound, s) \<and>
        updateNote t (ws @ junk) ttl cnt s = (notFound, s) \<and>
        deleteNote (ws @ junk) s = (notFound, s))"
proof -
  have none: "findIndex (matches i) (notes_arr s) = None \<longleftrightarrow>
      \<not> (\<exists>n \<in> set (notes_arr s). Some (id_note n) = parseInt i)" for i
    by (simp add: findIndex_None matches_def)
  have nan: "findIndex (matches i) (notes_arr s) = None" if "parseInt i = None" for i
    using that by (simp add: findIndex_None matches_def)
  have general: "(status (fst (getNoteById i s)) = 404 \<longleftrightarrow>
      \<not> (\<exists>n \<in> set (notes_arr s). Some (id_note n) = parseInt i))
   \<and> (status (fst (updateNote t i ttl cnt s)) = 404 \<longleftrightarrow>
      \<not> (\<exists>n \<in> set (notes_arr s). Some (id_note n) = parseInt i))
   \<and> (status (fst (deleteNote i s)) = 404 \<longleftrightarrow>
      \<not> (\<exists>n \<in> set (notes_arr s). Some (id_note n) = parseInt i))" for i
    using none [of i] by (simp add: status_by_findIndex)
  have missing: "getNoteById i s = (notFound, s) \<and> updateNote t i ttl cnt s = (notFound, s)
      \<and> deleteNote i s = (notFound, s)" if "findIndex (matches i) (notes_arr s) = None" for i
    using that by (simp add: getNoteById_missing updateNote_missing deleteNote_missing)
  have part1: "\<not> (\<exists>n \<in> set (notes_arr s). Some (id_note n) = parseInt ident) \<longrightarrow>
        getNoteById ident s = (notFound, s) \<and>
        updateNote t ident ttl cnt s = (notFound, s) \<and>
        deleteNote ident s = (notFound, s)"
    using missing [of ident] by (simp add: none [of ident])
  have part2: "parseInt ident = None \<longrightarrow>
        getNoteById ident s = (notFound, s) \<and>
        updateNote t ident ttl cnt s = (notFound, s) \<and>
        deleteNote ident s = (notFound, s)"
    using missing [OF nan, of ident] by simp
  have part3: "status (fst (getNoteById ident s)) \<in> {200, 404}
      \<and> status (fst (updateNote t ident ttl cnt s)) \<in> {200, 404}
      \<and> status (fst (deleteNote ident s)) \<in> {200, 404}"
    by (simp add: status_by_findIndex)
  have part4: "0 < k \<and> (\<forall>c \<in> set ws. is_space c) \<and> (rest = [] \<or> \<not> is_digit 10 (hd rest)) \<longrightarrow>
        parseInt (ws @ toString k @ rest) = Some k \<and>
        (status (fst (getNoteById (ws @ toString k @ rest) s)) = 404 \<longleftrightarrow>
           \<not> (\<exists>n \<in> set (notes_arr s). id_note n = k)) \<and>
        (status (fst (updateNote t (ws @ toString k @ rest) ttl cnt s)) = 404 \<longleftrightarrow>
           \<not> (\<exists>n \<in> set (notes_arr s). id_note n = k)) \<and>
        (status (fst (deleteNote (ws @ toString k @ rest) s)) = 404 \<longleftrightarrow>
           \<not> (\<exists>n \<in> set (notes_arr s). id_note n = k))"
  proof
    assume "0 < k \<and> (\<forall>c \<in> set ws. is_space c) \<and> (rest = [] \<or> \<not> is_digit 10 (hd rest))"
    then have p: "parseInt (ws @ toString k @ rest) = Some k"
      by (intro parseInt_prefix_of_id) simp_all
    with general [of "ws @ toString k @ rest"] show "parseInt (ws @ toString k @ rest) = Some k \<and>
        (status (fst (getNoteById (ws @ toString k @ rest) s)) = 404 \<longleftrightarrow>
           \<not> (\<exists>n \<in> set (notes_arr s). id_note n = k)) \<and>
        (status (fst (updateNote t (ws @ toString k @ rest) ttl cnt s)) = 404 \<longleftrightarrow>
           \<not> (\<exists>n \<in> set (notes_arr s). id_note n = k)) \<and>
        (status (fst (deleteNote (ws @ toString k @ rest) s)) = 404 \<longleftrightarrow>
           \<not> (\<exists>n \<in> set (notes_arr s). id_note n = k))"
      by simp
  qed
  have part5: "(\<forall>c \<in> set ws. is_space c) \<and>
        (junk = [] \<or> (\<not> is_space (hd junk) \<and> \<not> is_digit 10 (hd junk) \<and>
                       hd junk \<noteq> 43 \<and> hd junk \<noteq> 45)) \<longrightarrow>
        parseInt (ws @ junk) = None \<and>
        getNoteById (ws @ junk) s = (notFound, s) \<and>
        updateNote t (ws @ junk) ttl cnt s = (notFound, s) \<and>
        deleteNote (ws @ junk) s = (notFound, s)"
  proof
    assume "(\<forall>c \<in> set ws. is_space c) \<and>
        (junk = [] \<or> (\<not> is_space (hd junk) \<and> \<not> is_digit 10 (hd junk) \<and>
                       hd junk \<noteq> 43 \<and> hd junk \<noteq> 45))"
    then have p: "parseInt (ws @ junk) = None"
      by (intro parseInt_NaN) simp_all
    with missing [OF nan [OF p]] show "parseInt (ws @ junk) = None \<and>
        getNoteById (ws @ junk) s = (notFound, s) \<and>
        updateNote t (ws @ junk) ttl cnt s = (notFound, s) \<and>
        deleteNote (ws @ junk) s = (notFound, s)"
      by simp
  qed
  from general [of ident] part1 part2 part3 part4 part5 show ?thesis
    by (intro conjI) blast+
qed

theorem not_found_exactly_when_no_match_witness:
  "status (fst (getNoteById (ascii ''7'') (state_after [Create 1 1 (JStr ''a'') (JStr ''b'')]))) = 404
   \<and> status (fst (getNoteById (ascii ''1'') (state_after [Create 1 1 (JStr ''a'') (JStr ''b'')]))) \<noteq> 404
   \<and> parseInt (ascii ''abc'') = None
   \<and> deleteNote (ascii ''abc'') (state_after [Create 1 1 (JStr ''a'') (JStr ''b'')]) = (notFound, state_after [Create 1 1 (JStr ''a'') (JStr ''b'')])
   \<and> 0 < (1 :: int) \<and> is_space 0xA0 \<and> \<not> is_digit 10 (hd (ascii ''abc''))
   \<and> parseInt ([0xA0] @ toString 1 @ ascii ''abc'') = Some 1
   \<and> status (fst (getNoteById ([0xA0] @ toString 1 @ ascii ''abc'') (state_after [Create 1 1 (JStr ''a'') (JStr ''b'')]))) \<noteq> 404
   \<and> \<not> is_space (hd (ascii ''abc'')) \<and> hd (ascii ''abc'') \<noteq> 43 \<and> hd (ascii ''abc'') \<noteq> 45
   \<and> updateNote 5 ([0xA0] @ ascii ''abc'') (JStr ''c'') JUndefined (state_after [Create 1 1 (JStr ''a'') (JStr ''b'')])
       = (notFound, state_after [Create 1 1 (JStr ''a'') (JStr ''b'')])"
proof -
  have s: "state_after [Create 1 1 (JStr ''a'') (JStr ''b'')] =
      \<lparr>notes_arr = [\<lparr>id_note = 1, title = JStr ''a'', content = JStr ''b'', createdAt = 1, updatedAt = 1\<rparr>], nextId = 2\<rparr>"
    by code_simp
  have p: "parseInt (ascii ''abc'') = None" "parseInt (ascii ''7'') = Some 7"
    "parseInt (ascii ''1'') = Some 1"
    by code_simp+
  have h1: "0 < (1 :: int) \<and> (\<forall>c \<in> set [0xA0]. is_space c)
        \<and> (ascii ''abc'' = [] \<or> \<not> is_digit 10 (hd (ascii ''abc'')))"
    by code_simp
  have h2: "(\<forall>c \<in> set [0xA0]. is_space c) \<and>
        (ascii ''abc'' = [] \<or> (\<not> is_space (hd (ascii ''abc'')) \<and> \<not> is_digit 10 (hd (ascii ''abc'')) \<and>
                       hd (ascii ''abc'') \<noteq> 43 \<and> hd (ascii ''abc'') \<noteq> 45))"
    by code_simp
  note a = not_found_exactly_when_no_match
         [of "ascii ''7''" "state_after [Create 1 1 (JStr ''a'') (JStr ''b'')]" 5 "JStr ''c''" JUndefined 1 "[0xA0]" "ascii ''abc''" "ascii ''abc''"]
  note b = not_found_exactly_when_no_match
         [of "ascii ''1''" "state_after [Create 1 1 (JStr ''a'') (JStr ''b'')]" 5 "JStr ''c''" JUndefined 1 "[0xA0]" "ascii ''abc''" "ascii ''abc''"]
  note c = not_found_exactly_when_no_match
         [of "ascii ''abc''" "state_after [Create 1 1 (JStr ''a'') (JStr ''b'')]" 5 "JStr ''c''" JUndefined 1 "[0xA0]" "ascii ''abc''" "ascii ''abc''"]
  have w1: "status (fst (getNoteById (ascii ''7'') (state_after [Create 1 1 (JStr ''a'') (JStr ''b'')]))) = 404"
    using a [THEN conjunct1] by (simp add: s p)
  have w2: "status (fst (getNoteById (ascii ''1'') (state_after [Create 1 1 (JStr ''a'') (JStr ''b'')]))) \<noteq> 404"
    using b [THEN conjunct1] by (simp add: s p)
  from c p(1) have w3: "deleteNote (ascii ''abc'') (state_after [Create 1 1 (JStr ''a'') (JStr ''b'')]) = (notFound, state_after [Create 1 1 (JStr ''a'') (JStr ''b'')])"
    by blast
  from a h1 have w4: "parseInt ([0xA0] @ toString 1 @ ascii ''abc'') = Some 1"
    and w5: "status (fst (getNoteById ([0xA0] @ toString 1 @ ascii ''abc'') (state_after [Create 1 1 (JStr ''a'') (JStr ''b'')]))) = 404 \<longleftrightarrow>
           \<not> (\<exists>n \<in> set (notes_arr (state_after [Create 1 1 (JStr ''a'') (JStr ''b'')])). id_note n = 1)"
    by blast+
  have "\<exists>n \<in> set (notes_arr (state_after [Create 1 1 (JStr ''a'') (JStr ''b'')])). id_note n = 1"
    unfolding s by simp
  with w5 have w6: "status (fst (getNoteById ([0xA0] @ toString 1 @ ascii ''abc'') (state_after [Create 1 1 (JStr ''a'') (JStr ''b'')]))) \<noteq> 404"
    by simp
  from a h2 have w7: "updateNote 5 ([0xA0] @ ascii ''abc'') (JStr ''c'') JUndefined (state_after [Create 1 1 (JStr ''a'') (JStr ''b'')])
       = (notFound, state_after [Create 1 1 (JStr ''a'') (JStr ''b'')])"
    by blast
  have g: "is_space 0xA0" "\<not> is_digit 10 (hd (ascii ''abc''))" "\<not> is_space (hd (ascii ''abc''))"
    "hd (ascii ''abc'') \<noteq> 43" "hd (ascii ''abc'') \<noteq> 45"
    by code_simp+
  from w1 w2 p(1) w3 w4 w6 w7 g show ?thesis by simp
qed

text \<open>
  Claim C4 as stated treats every non-numeric identifier as matching nothing. \<^verbatim>\<open>parseInt\<close>
  reads the numeral a string starts with: with note 1 in the store, the parameters
  \<^verbatim>\<open>1abc\<close> and \<^verbatim>\<open>1.9\<close> get note 1 with status 200, and a delete on \<^verbatim>\<open>0x1\<close> removes it.
\<close>

theorem numeric_prefix_identifier_counterexample:
  "getNoteById (ascii ''1abc'') (state_after [Create 1 1 (JStr ''a'') (JStr ''b'')]) =
     (\<lparr>status = 200, success = True, message = None, count = None, data = Some (One \<lparr>id_note = 1, title = JStr ''a'', content = JStr ''b'', createdAt = 1, updatedAt = 1\<rparr>)\<rparr>,
      \<lparr>notes_arr = [\<lparr>id_note = 1, title = JStr ''a'', content = JStr ''b'', createdAt = 1, updatedAt = 1\<rparr>], nextId = 2\<rparr>)
   \<and> getNoteById (ascii ''1.9'') (state_after [Create 1 1 (JStr ''a'') (JStr ''b'')]) =
     (\<lparr>status = 200, success = True, message = None, count = None, data = Some (One \<lparr>id_note = 1, title = JStr ''a'', content = JStr ''b'', createdAt = 1, updatedAt = 1\<rparr>)\<rparr>,
      \<lparr>notes_arr = [\<lparr>id_note = 1, title = JStr ''a'', content = JStr ''b'', createdAt = 1, updatedAt = 1\<rparr>], nextId = 2\<rparr>)
   \<and> deleteNote (ascii ''0x1'') (state_after [Create 1 1 (JStr ''a'') (JStr ''b'')]) =
     (\<lparr>status = 200, success = True, message = Some ''Note deleted successfully'', count = None,
       data = Some (One \<lparr>id_note = 1, title = JStr ''a'', content = JStr ''b'', createdAt = 1, updatedAt = 1\<rparr>)\<rparr>,
      \<lparr>notes_arr = [], nextId = 2\<rparr>)"
proof -
  have "getNoteById (ascii ''1abc'') (state_after [Create 1 1 (JStr ''a'') (JStr ''b'')]) =
     (\<lparr>status = 200, success = True, message = None, count = None, data = Some (One \<lparr>id_note = 1, title = JStr ''a'', content = JStr ''b'', createdAt = 1, updatedAt = 1\<rparr>)\<rparr>,
      \<lparr>notes_arr = [\<lparr>id_note = 1, title = JStr ''a'', content = JStr ''b'', createdAt = 1, updatedAt = 1\<rparr>], nextId = 2\<rparr>)"
    by code_simp
  moreover have "getNoteById (ascii ''1.9'') (state_after [Create 1 1 (JStr ''a'') (JStr ''b'')]) =
     (\<lparr>status = 200, success = True, message = None, count = None, data = Some (One \<lparr>id_note = 1, title = JStr ''a'', content = JStr ''b'', createdAt = 1, updatedAt = 1\<rparr>)\<rparr>,
      \<lparr>notes_arr = [\<lparr>id_note = 1, title = JStr ''a'', content = JStr ''b'', createdAt = 1, updatedAt = 1\<rparr>], nextId = 2\<rparr>)"
    by code_simp
  moreover have "deleteNote (ascii ''0x1'') (state_after [Create 1 1 (JStr ''a'') (JStr ''b'')]) =
     (\<lparr>status = 200, success = True, message = Some ''Note deleted successfully'', count = None,
       data = Some (One \<lparr>id_note = 1, title = JStr ''a'', content = JStr ''b'', createdAt = 1, updatedAt = 1\<rparr>)\<rparr>,
      \<lparr>notes_arr = [], nextId = 2\<rparr>)"
    by code_simp
  ultimately show ?thesis by blast
qed

lemma findIndex_cong_ids:
  "map id_note xs = map id_note ys \<Longrightarrow> findIndex (matches ident) xs = findIndex (matches ident) ys"
proof (induction xs arbitrary: ys)
  case Nil
  then show ?case by simp
next
  case (Cons x xs)
  then obtain y ys' where ys: "ys = y # ys'" by (cases ys) auto
  with Cons.prems have "id_note x = id_note y" "map id_note xs = map id_note ys'" by simp_all
  with Cons.IH [of ys'] ys show ?case by (simp add: matches_def)
qed

lemma title_updated: "title (updated t ttl cnt n) = (if ttl = JUndefined then title n else ttl)"
  by (simp add: updated_def)

lemma content_updated: "content (updated t ttl cnt n) = (if cnt = JUndefined then content n else cnt)"
  by (simp add: updated_def)

lemma updatedAt_updated: "updatedAt (updated t ttl cnt n) = t"
  by (simp add: updated_def)

text \<open>
  Claim C3. When \<^verbatim>\<open>find\<close> yields a stored note \<open>n\<close> for the identifier, \<^verbatim>\<open>updateNote\<close>
  answers 200 with a note \<open>m\<close> that is the one now stored under the identifier; its title
  is the given one when a title was given (any value other than \<^verbatim>\<open>undefined\<close>, the empty
  string included) and the old one otherwise, likewise its content, and its
  \<^verbatim>\<open>updatedAt\<close> is the clock reading of this call whether or not anything was given.
\<close>

theorem update_replaces_present_fields:
  assumes "find (matches ident) (notes_arr s) = Some n"
  shows "\<exists>m. fst (updateNote t ident ttl cnt s) =
               \<lparr>status = 200, success = True, message = Some ''Note updated successfully'',
                count = None, data = Some (One m)\<rparr>
           \<and> find (matches ident) (notes_arr (snd (updateNote t ident ttl cnt s))) = Some m
           \<and> title m = (if ttl = JUndefined then title n else ttl)
           \<and> content m = (if cnt = JUndefined then content n else cnt)
           \<and> updatedAt m = t"
proof -
  from assms obtain i where i: "findIndex (matches ident) (notes_arr s) = Some i"
    and n: "n = notes_arr s ! i"
    by (auto simp: find_findIndex)
  from findIndex_Some [OF i] have len: "i < length (notes_arr s)" by simp
  let ?m = "updated t ttl cnt n"
  let ?xs = "(notes_arr s)[i := ?m]"
  have "findIndex (matches ident) ?xs = Some i"
    using findIndex_cong_ids [OF map_id_note_update, of ident "notes_arr s" i t ttl cnt] i n
    by simp
  then have "find (matches ident) ?xs = Some ?m"
    using len by (simp add: find_findIndex)
  then show ?thesis
    using n by (auto simp: updateNote_found [OF i] title_updated content_updated updatedAt_updated)
qed

theorem update_replaces_present_fields_witness:
  "find (matches (ascii ''1'')) (notes_arr (state_after [Create 3 3 (JStr ''a'') (JStr ''b'')]))
     = Some \<lparr>id_note = 1, title = JStr ''a'', content = JStr ''b'', createdAt = 3, updatedAt = 3\<rparr>
   \<and> updateNote 8 (ascii ''1'') (JStr []) JUndefined (state_after [Create 3 3 (JStr ''a'') (JStr ''b'')])
     = (\<lparr>status = 200, success = True, message = Some ''Note updated successfully'',
         count = None,
         data = Some (One \<lparr>id_note = 1, title = JStr [], content = JStr ''b'',
                            createdAt = 3, updatedAt = 8\<rparr>)\<rparr>,
        \<lparr>notes_arr = [\<lparr>id_note = 1, title = JStr [], content = JStr ''b'',
                        createdAt = 3, updatedAt = 8\<rparr>], nextId = 2\<rparr>)
   \<and> (\<exists>m. fst (updateNote 8 (ascii ''1'') JUndefined JUndefined
                 (state_after [Create 3 3 (JStr ''a'') (JStr ''b'')])) =
               \<lparr>status = 200, success = True, message = Some ''Note updated successfully'',
                count = None, data = Some (One m)\<rparr>
           \<and> title m = JStr ''a'' \<and> content m = JStr ''b'' \<and> updatedAt m = 8)"
proof -
  have f: "find (matches (ascii ''1'')) (notes_arr (state_after [Create 3 3 (JStr ''a'') (JStr ''b'')]))
     = Some \<lparr>id_note = 1, title = JStr ''a'', content = JStr ''b'', createdAt = 3, updatedAt = 3\<rparr>"
    by code_simp
  have u: "updateNote 8 (ascii ''1'') (JStr []) JUndefined (state_after [Create 3 3 (JStr ''a'') (JStr ''b'')])
     = (\<lparr>status = 200, success = True, message = Some ''Note updated successfully'',
         count = None,
         data = Some (One \<lparr>id_note = 1, title = JStr [], content = JStr ''b'',
                            createdAt = 3, updatedAt = 8\<rparr>)\<rparr>,
        \<lparr>notes_arr = [\<lparr>id_note = 1, title = JStr [], content = JStr ''b'',
                        createdAt = 3, updatedAt = 8\<rparr>], nextId = 2\<rparr>)"
    by code_simp
  from update_replaces_present_fields [OF f, of 8 JUndefined JUndefined] f u
  show ?thesis by auto
qed

text \<open>
  Claim C9. \<^verbatim>\<open>updateNote\<close> leaves the identifier and \<^verbatim>\<open>createdAt\<close> of every note, position
  by position, as they were, leaves the counter as it was, and leaves every note other
  than the one at the matched index entirely unchanged.
\<close>

theorem update_keeps_id_and_createdAt:
  "map id_note (notes_arr (snd (updateNote t ident ttl cnt s))) = map id_note (notes_arr s)
   \<and> map createdAt (notes_arr (snd (updateNote t ident ttl cnt s))) = map createdAt (notes_arr s)
   \<and> nextId (snd (updateNote t ident ttl cnt s)) = nextId s
   \<and> (\<forall>j < length (notes_arr s).
         findIndex (matches ident) (notes_arr s) \<noteq> Some j \<longrightarrow>
         notes_arr (snd (updateNote t ident ttl cnt s)) ! j = notes_arr s ! j)"
proof (cases "findIndex (matches ident) (notes_arr s)")
  case None
  then show ?thesis by (simp add: updateNote_missing)
next
  case (Some i)
  from findIndex_Some [OF Some] have len: "i < length (notes_arr s)" by simp
  have "map createdAt ((notes_arr s)[i := updated t ttl cnt (notes_arr s ! i)]) = map createdAt (notes_arr s)"
    using len by (simp add: map_update list_update_same_conv)
  then show ?thesis
    using Some by (auto simp: updateNote_found [OF Some] map_id_note_update)
qed

theorem update_keeps_id_and_createdAt_witness:
  "map id_note (notes_arr (snd (updateNote 9 (ascii ''2'') (JStr ''t'') (JStr ''c'')
      (state_after [Create 1 1 (JStr ''a'') (JStr ''b''), Create 2 2 (JStr ''c'') (JStr ''d'')])))) = [1, 2]
   \<and> map createdAt (notes_arr (snd (updateNote 9 (ascii ''2'') (JStr ''t'') (JStr ''c'')
      (state_after [Create 1 1 (JStr ''a'') (JStr ''b''), Create 2 2 (JStr ''c'') (JStr ''d'')])))) = [1, 2]
   \<and> notes_arr (snd (updateNote 9 (ascii ''2'') (JStr ''t'') (JStr ''c'')
      (state_after [Create 1 1 (JStr ''a'') (JStr ''b''), Create 2 2 (JStr ''c'') (JStr ''d'')]))) ! 0
     = \<lparr>id_note = 1, title = JStr ''a'', content = JStr ''b'', createdAt = 1, updatedAt = 1\<rparr>"
proof -
  have s: "state_after [Create 1 1 (JStr ''a'') (JStr ''b''), Create 2 2 (JStr ''c'') (JStr ''d'')] =
      \<lparr>notes_arr = [\<lparr>id_note = 1, title = JStr ''a'', content = JStr ''b'', createdAt = 1, updatedAt = 1\<rparr>,
                    \<lparr>id_note = 2, title = JStr ''c'', content = JStr ''d'', createdAt = 2, updatedAt = 2\<rparr>],
       nextId = 3\<rparr>"
    by code_simp
  have m: "\<not> matches (ascii ''2'') \<lparr>id_note = 1, title = JStr ''a'', content = JStr ''b'', createdAt = 1, updatedAt = 1\<rparr>"
    "matches (ascii ''2'') \<lparr>id_note = 2, title = JStr ''c'', content = JStr ''d'', createdAt = 2, updatedAt = 2\<rparr>"
    by code_simp+
  from update_keeps_id_and_createdAt
    [of 9 "ascii ''2''" "JStr ''t''" "JStr ''c''"
        "state_after [Create 1 1 (JStr ''a'') (JStr ''b''), Create 2 2 (JStr ''c'') (JStr ''d'')]"]
  show ?thesis unfolding s by (simp add: m All_less_Suc)
qed

text \<open>
  Claim C7. \<^verbatim>\<open>getAllNotes\<close> answers 200 on every store, with the whole array as data and
  its length as count, and leaves the store alone; on the initial store the count is 0.
  The array is in insertion order: a successful creation puts its note behind the notes
  listed before, and after any sequence of calls the listed identifiers ascend, as the
  order in which they were handed out does.
\<close>

theorem getAllNotes_lists_everything:
  "status (fst (getAllNotes s)) = 200 \<and> success (fst (getAllNotes s))
   \<and> data (fst (getAllNotes s)) = Some (Many (notes_arr s))
   \<and> count (fst (getAllNotes s)) = Some (length (notes_arr s))
   \<and> snd (getAllNotes s) = s
   \<and> fst (getAllNotes initial) =
       \<lparr>status = 200, success = True, message = None, count = Some 0, data = Some (Many [])\<rparr>
   \<and> (truthy ttl \<and> truthy cnt \<longrightarrow>
        data (fst (getAllNotes (snd (createNote t1 t2 ttl cnt s))))
          = Some (Many (notes_arr s @ [newNote t1 t2 ttl cnt s])))
   \<and> (\<exists>ns. data (fst (getAllNotes (state_after cs))) = Some (Many ns)
          \<and> count (fst (getAllNotes (state_after cs))) = Some (length ns)
          \<and> sorted_wrt (<) (map id_note ns))"
proof -
  have "sorted_wrt (<) (map id_note (notes_arr (state_after cs)))"
    using store_inv_state_after [of cs] by (simp add: store_inv_def)
  then show ?thesis
    by (simp add: getAllNotes_def initial_def createNote_accepted)
qed

theorem getAllNotes_lists_everything_witness:
  "fst (getAllNotes (state_after [Create 1 1 (JStr ''a'') (JStr ''b''),
                                  Create 2 2 (JStr ''c'') (JStr ''d'')])) =
     \<lparr>status = 200, success = True, message = None, count = Some 2,
      data = Some (Many
        [\<lparr>id_note = 1, title = JStr ''a'', content = JStr ''b'', createdAt = 1, updatedAt = 1\<rparr>,
         \<lparr>id_note = 2, title = JStr ''c'', content = JStr ''d'', createdAt = 2, updatedAt = 2\<rparr>])\<rparr>
   \<and> truthy (JStr ''e'') \<and> truthy (JStr ''f'')
   \<and> data (fst (getAllNotes (snd (createNote 3 3 (JStr ''e'') (JStr ''f'') initial))))
       = Some (Many [\<lparr>id_note = 1, title = JStr ''e'', content = JStr ''f'',
                       createdAt = 3, updatedAt = 3\<rparr>])"
proof -
  have s: "state_after [Create 1 1 (JStr ''a'') (JStr ''b''), Create 2 2 (JStr ''c'') (JStr ''d'')] =
      \<lparr>notes_arr = [\<lparr>id_note = 1, title = JStr ''a'', content = JStr ''b'', createdAt = 1, updatedAt = 1\<rparr>,
                    \<lparr>id_note = 2, title = JStr ''c'', content = JStr ''d'', createdAt = 2, updatedAt = 2\<rparr>],
       nextId = 3\<rparr>"
    by code_simp
  have n: "newNote 3 3 (JStr ''e'') (JStr ''f'') initial =
      \<lparr>id_note = 1, title = JStr ''e'', content = JStr ''f'', createdAt = 3, updatedAt = 3\<rparr>"
    by (simp add: newNote_def initial_def)
  have i: "notes_arr initial = []" by (simp add: initial_def)
  from getAllNotes_lists_everything
         [of "state_after [Create 1 1 (JStr ''a'') (JStr ''b''), Create 2 2 (JStr ''c'') (JStr ''d'')]"
             "JStr ''e''" "JStr ''f''" 3 3 "[]"]
       getAllNotes_lists_everything [of initial "JStr ''e''" "JStr ''f''" 3 3 "[]"]
  show ?thesis unfolding s n i
    by (simp add: getAllNotes_def)
qed

lemma filter_key_le_1:
  "distinct (map f xs) \<Longrightarrow> length (filter (\<lambda>x. f x = k) xs) \<le> 1"
proof (induction xs)
  case Nil
  then show ?case by simp
next
  case (Cons x xs)
  show ?case
  proof (cases "f x = k")
    case True
    with Cons.prems have "\<forall>y \<in> set xs. f y \<noteq> k" by (auto simp: image_iff)
    then have "filter (\<lambda>x. f x = k) xs = []" by (simp add: filter_empty_conv)
    with True show ?thesis by simp
  next
    case False
    with Cons show ?thesis by simp
  qed
qed

lemma distinct_ids: "distinct (map id_note (notes_arr (state_after cs)))"
  using store_inv_state_after [of cs] by (simp add: store_inv_def strict_sorted_iff)

text \<open>
  Claim C10. After every sequence of calls from the initial store the identifiers in the
  array ascend strictly; hence at most one note has a given identifier, and at most one
  matches a given path parameter.
\<close>

theorem notes_sorted_by_id:
  "sorted_wrt (<) (map id_note (notes_arr (state_after cs)))
   \<and> length (filter (\<lambda>n. id_note n = k) (notes_arr (state_after cs))) \<le> 1
   \<and> length (filter (\<lambda>n. Some (id_note n) = parseInt ident) (notes_arr (state_after cs))) \<le> 1"
proof -
  have sorted: "sorted_wrt (<) (map id_note (notes_arr (state_after cs)))"
    using store_inv_state_after [of cs] by (simp add: store_inv_def)
  have one: "length (filter (\<lambda>n. id_note n = j) (notes_arr (state_after cs))) \<le> 1" for j
    by (rule filter_key_le_1 [OF distinct_ids])
  have "length (filter (\<lambda>n. Some (id_note n) = parseInt ident) (notes_arr (state_after cs))) \<le> 1"
  proof (cases "parseInt ident")
    case None
    then show ?thesis by simp
  next
    case (Some j)
    then have "filter (\<lambda>n. Some (id_note n) = parseInt ident) (notes_arr (state_after cs))
        = filter (\<lambda>n. id_note n = j) (notes_arr (state_after cs))"
      by (intro filter_cong) auto
    then show ?thesis using one [of j] by simp
  qed
  with sorted one [of k] show ?thesis by simp
qed

theorem notes_sorted_by_id_witness:
  "map id_note (notes_arr (state_after
      [Create 1 1 (JStr ''a'') (JStr ''b''), Create 2 2 (JStr ''c'') (JStr ''d''),
       Create 3 3 (JStr ''e'') (JStr ''f''), Delete (ascii ''2''), Update 4 (ascii ''3'') (JStr ''g'') JUndefined,
       Create 5 5 (JStr ''h'') (JStr ''i'')])) = [1, 3, 4]
   \<and> sorted_wrt (<) (map id_note (notes_arr (state_after
      [Create 1 1 (JStr ''a'') (JStr ''b''), Create 2 2 (JStr ''c'') (JStr ''d''),
       Create 3 3 (JStr ''e'') (JStr ''f''), Delete (ascii ''2''), Update 4 (ascii ''3'') (JStr ''g'') JUndefined,
       Create 5 5 (JStr ''h'') (JStr ''i'')])))
   \<and> length (filter (\<lambda>n. id_note n = 3) (notes_arr (state_after
      [Create 1 1 (JStr ''a'') (JStr ''b''), Create 2 2 (JStr ''c'') (JStr ''d''),
       Create 3 3 (JStr ''e'') (JStr ''f''), Delete (ascii ''2''), Update 4 (ascii ''3'') (JStr ''g'') JUndefined,
       Create 5 5 (JStr ''h'') (JStr ''i'')]))) \<le> 1"
proof -
  have "map id_note (notes_arr (state_after
      [Create 1 1 (JStr ''a'') (JStr ''b''), Create 2 2 (JStr ''c'') (JStr ''d''),
       Create 3 3 (JStr ''e'') (JStr ''f''), Delete (ascii ''2''), Update 4 (ascii ''3'') (JStr ''g'') JUndefined,
       Create 5 5 (JStr ''h'') (JStr ''i'')])) = [1, 3, 4]"
    by code_simp
  with notes_sorted_by_id [of "[Create 1 1 (JStr ''a'') (JStr ''b''), Create 2 2 (JStr ''c'') (JStr ''d''),
       Create 3 3 (JStr ''e'') (JStr ''f''), Delete (ascii ''2''), Update 4 (ascii ''3'') (JStr ''g'') JUndefined,
       Create 5 5 (JStr ''h'') (JStr ''i'')]" 3 "ascii ''3''"]
  show ?thesis by blast
qed

lemma remove_nth_remove1:
  "i < length xs \<Longrightarrow> \<forall>j < i. xs ! j \<noteq> xs ! i \<Longrightarrow> take i xs @ drop (Suc i) xs = remove1 (xs ! i) xs"
proof (induction xs arbitrary: i)
  case Nil
  then show ?case by simp
next
  case (Cons x xs)
  show ?case
  proof (cases i)
    case 0
    then show ?thesis by simp
  next
    case (Suc k)
    with Cons.prems have k: "k < length xs" by simp
    from Cons.prems(2) Suc have "x \<noteq> xs ! k" by auto
    moreover from Cons.prems(2) Suc have "\<forall>j < k. xs ! j \<noteq> xs ! k" by auto
    ultimately show ?thesis using Suc Cons.IH [OF k] by simp
  qed
qed

text \<open>
  Claim C5. After any sequence of calls, when \<^verbatim>\<open>find\<close> yields a stored note \<open>n\<close> for the
  identifier, \<^verbatim>\<open>deleteNote\<close> answers 200 with \<open>n\<close> itself as data, the array afterwards is
  the array before with that one element removed (the others as they were and in their
  order), no remaining note has the identifier of \<open>n\<close>, the counter is untouched, and
  \<^verbatim>\<open>getNoteById\<close> with the same identifier answers 404.
\<close>

theorem delete_removes_exactly_that_note:
  assumes "find (matches ident) (notes_arr (state_after cs)) = Some n"
  shows "fst (deleteNote ident (state_after cs)) =
           \<lparr>status = 200, success = True, message = Some ''Note deleted successfully'',
            count = None, data = Some (One n)\<rparr>
       \<and> notes_arr (snd (deleteNote ident (state_after cs))) = remove1 n (notes_arr (state_after cs))
       \<and> (\<forall>m \<in> set (notes_arr (snd (deleteNote ident (state_after cs)))). id_note m \<noteq> id_note n)
       \<and> nextId (snd (deleteNote ident (state_after cs))) = nextId (state_after cs)
       \<and> getNoteById ident (snd (deleteNote ident (state_after cs)))
           = (notFound, snd (deleteNote ident (state_after cs)))"
proof -
  let ?s = "state_after cs"
  let ?xs = "notes_arr ?s"
  from assms obtain i where i: "findIndex (matches ident) ?xs = Some i" and n: "n = ?xs ! i"
    by (auto simp: find_findIndex)
  from findIndex_Some [OF i] have len: "i < length ?xs" and hit: "matches ident (?xs ! i)"
    and first: "\<forall>j < i. \<not> matches ident (?xs ! j)" by simp_all
  from hit first have "\<forall>j < i. ?xs ! j \<noteq> ?xs ! i" by auto
  with len have rest: "take i ?xs @ drop (Suc i) ?xs = remove1 n ?xs"
    unfolding n by (rule remove_nth_remove1)
  have "distinct (map id_note ?xs)" by (rule distinct_ids)
  then have dist: "distinct ?xs" and inj: "inj_on id_note (set ?xs)"
    by (simp_all add: distinct_map)
  have gone: "\<forall>m \<in> set (remove1 n ?xs). id_note m \<noteq> id_note n"
  proof
    fix m assume m: "m \<in> set (remove1 n ?xs)"
    with dist have "m \<in> set ?xs" "m \<noteq> n" by auto
    moreover from len n have "n \<in> set ?xs" by simp
    ultimately show "id_note m \<noteq> id_note n" using inj by (auto dest: inj_onD)
  qed
  from hit n have "parseInt ident = Some (id_note n)" by (simp add: matches_def)
  with gone have "findIndex (matches ident) (remove1 n ?xs) = None"
    by (auto simp: findIndex_None matches_def)
  then have "getNoteById ident (?s\<lparr>notes_arr := remove1 n ?xs\<rparr>) = (notFound, ?s\<lparr>notes_arr := remove1 n ?xs\<rparr>)"
    by (simp add: getNoteById_missing)
  with gone show ?thesis
    by (simp add: deleteNote_found [OF i] rest n [symmetric])
qed

theorem delete_removes_exactly_that_note_witness:
  "find (matches (ascii ''1'')) (notes_arr (state_after
      [Create 1 1 (JStr ''a'') (JStr ''b''), Create 2 2 (JStr ''c'') (JStr ''d'')]))
     = Some \<lparr>id_note = 1, title = JStr ''a'', content = JStr ''b'', createdAt = 1, updatedAt = 1\<rparr>
   \<and> deleteNote (ascii ''1'') (state_after
      [Create 1 1 (JStr ''a'') (JStr ''b''), Create 2 2 (JStr ''c'') (JStr ''d'')])
     = (\<lparr>status = 200, success = True, message = Some ''Note deleted successfully'', count = None,
         data = Some (One \<lparr>id_note = 1, title = JStr ''a'', content = JStr ''b'',
                            createdAt = 1, updatedAt = 1\<rparr>)\<rparr>,
        \<lparr>notes_arr = [\<lparr>id_note = 2, title = JStr ''c'', content = JStr ''d'',
                        createdAt = 2, updatedAt = 2\<rparr>], nextId = 3\<rparr>)
   \<and> getNoteById (ascii ''1'') (snd (deleteNote (ascii ''1'') (state_after
      [Create 1 1 (JStr ''a'') (JStr ''b''), Create 2 2 (JStr ''c'') (JStr ''d'')])))
     = (notFound, snd (deleteNote (ascii ''1'') (state_after
      [Create 1 1 (JStr ''a'') (JStr ''b''), Create 2 2 (JStr ''c'') (JStr ''d'')])))"
proof -
  have f: "find (matches (ascii ''1'')) (notes_arr (state_after
      [Create 1 1 (JStr ''a'') (JStr ''b''), Create 2 2 (JStr ''c'') (JStr ''d'')]))
     = Some \<lparr>id_note = 1, title = JStr ''a'', content = JStr ''b'', createdAt = 1, updatedAt = 1\<rparr>"
    by code_simp
  have d: "deleteNote (ascii ''1'') (state_after
      [Create 1 1 (JStr ''a'') (JStr ''b''), Create 2 2 (JStr ''c'') (JStr ''d'')])
     = (\<lparr>status = 200, success = True, message = Some ''Note deleted successfully'', count = None,
         data = Some (One \<lparr>id_note = 1, title = JStr ''a'', content = JStr ''b'',
                            createdAt = 1, updatedAt = 1\<rparr>)\<rparr>,
        \<lparr>notes_arr = [\<lparr>id_note = 2, title = JStr ''c'', content = JStr ''d'',
                        createdAt = 2, updatedAt = 2\<rparr>], nextId = 3\<rparr>)"
    by code_simp
  from delete_removes_exactly_that_note [OF f] f d
  show ?thesis by blast
qed

lemma findIndex_append_last:
  "\<forall>x \<in> set xs. \<not> P x \<Longrightarrow> P y \<Longrightarrow> findIndex P (xs @ [y]) = Some (length xs)"
  by (induction xs) simp_all

lemma getNoteById_fresh:
  assumes inv: "store_inv s" and p: "parseInt ident = Some (nextId s)" and n: "id_note n = nextId s"
  shows "getNoteById ident \<lparr>notes_arr = notes_arr s @ [n], nextId = k\<rparr> =
     (\<lparr>status = 200, success = True, message = None, count = None, data = Some (One n)\<rparr>,
      \<lparr>notes_arr = notes_arr s @ [n], nextId = k\<rparr>)"
proof -
  from inv p have "\<forall>m \<in> set (notes_arr s). \<not> matches ident m"
    by (auto simp: store_inv_def matches_def)
  moreover from p n have "matches ident n" by (simp add: matches_def)
  ultimately have "findIndex (matches ident) (notes_arr s @ [n]) = Some (length (notes_arr s))"
    by (rule findIndex_append_last)
  then show ?thesis
    by (simp add: getNoteById_found)
qed

text \<open>
  Claim C6, as amended. After any sequence of calls, \<^verbatim>\<open>createNote\<close> with a truthy title
  and content answers 201 with the note \<open>n\<close> whose identifier is the counter before the
  call, whose \<^verbatim>\<open>createdAt\<close> is the first clock reading of the call and whose \<^verbatim>\<open>updatedAt\<close>
  is the second; \<open>n\<close> is appended to the array and the counter advances by one. A
  \<^verbatim>\<open>getNoteById\<close> that follows, with the decimal numeral of the identifier or with any
  string from which \<^verbatim>\<open>parseInt\<close> reads it, answers 200 with the same note \<open>n\<close>.
\<close>

theorem create_then_get:
  assumes "truthy ttl" and "truthy cnt"
  shows "\<exists>n. n = \<lparr>id_note = nextId (state_after cs), title = ttl, content = cnt,
                   createdAt = t1, updatedAt = t2\<rparr>
      \<and> createNote t1 t2 ttl cnt (state_after cs) =
          (\<lparr>status = 201, success = True, message = Some ''Note created successfully'',
            count = None, data = Some (One n)\<rparr>,
           \<lparr>notes_arr = notes_arr (state_after cs) @ [n], nextId = nextId (state_after cs) + 1\<rparr>)
      \<and> getNoteById (toString (id_note n)) (snd (createNote t1 t2 ttl cnt (state_after cs))) =
          (\<lparr>status = 200, success = True, message = None, count = None, data = Some (One n)\<rparr>,
           snd (createNote t1 t2 ttl cnt (state_after cs)))
      \<and> (parseInt ident = Some (id_note n) \<longrightarrow>
          getNoteById ident (snd (createNote t1 t2 ttl cnt (state_after cs))) =
          (\<lparr>status = 200, success = True, message = None, count = None, data = Some (One n)\<rparr>,
           snd (createNote t1 t2 ttl cnt (state_after cs))))"
proof -
  let ?s = "state_after cs"
  let ?n = "newNote t1 t2 ttl cnt ?s"
  have n: "?n = \<lparr>id_note = nextId ?s, title = ttl, content = cnt, createdAt = t1, updatedAt = t2\<rparr>"
    by (simp add: newNote_def)
  have idn: "id_note ?n = nextId ?s" by (simp add: newNote_def)
  note inv = store_inv_state_after [of cs]
  have "parseInt (toString (id_note ?n)) = Some (nextId ?s)"
    by (simp add: parseInt_toString idn)
  from getNoteById_fresh [OF inv this idn]
  have get1: "getNoteById (toString (id_note ?n)) \<lparr>notes_arr = notes_arr ?s @ [?n], nextId = nextId ?s + 1\<rparr> =
     (\<lparr>status = 200, success = True, message = None, count = None, data = Some (One ?n)\<rparr>,
      \<lparr>notes_arr = notes_arr ?s @ [?n], nextId = nextId ?s + 1\<rparr>)" .
  have get2: "parseInt ident = Some (id_note ?n) \<longrightarrow>
     getNoteById ident \<lparr>notes_arr = notes_arr ?s @ [?n], nextId = nextId ?s + 1\<rparr> =
     (\<lparr>status = 200, success = True, message = None, count = None, data = Some (One ?n)\<rparr>,
      \<lparr>notes_arr = notes_arr ?s @ [?n], nextId = nextId ?s + 1\<rparr>)"
    using getNoteById_fresh [OF inv _ idn, of ident] by (simp add: idn)
  have "createNote t1 t2 ttl cnt ?s =
          (\<lparr>status = 201, success = True, message = Some ''Note created successfully'',
            count = None, data = Some (One ?n)\<rparr>,
           \<lparr>notes_arr = notes_arr ?s @ [?n], nextId = nextId ?s + 1\<rparr>)"
    using assms by (rule createNote_accepted)
  with get1 get2 n show ?thesis
    by (intro exI [of _ ?n]) simp
qed

theorem create_then_get_witness:
  "truthy (JStr ''CRUD Test'') \<and> truthy (JStr ''Testing full cycle'')
   \<and> createNote 1000 1001 (JStr ''CRUD Test'') (JStr ''Testing full cycle'')
        (state_after [Create 1 1 (JStr ''a'') (JStr ''b''), Delete (ascii ''1'')]) =
      (\<lparr>status = 201, success = True, message = Some ''Note created successfully'', count = None,
        data = Some (One \<lparr>id_note = 2, title = JStr ''CRUD Test'',
                           content = JStr ''Testing full cycle'',
                           createdAt = 1000, updatedAt = 1001\<rparr>)\<rparr>,
       \<lparr>notes_arr = [\<lparr>id_note = 2, title = JStr ''CRUD Test'',
                       content = JStr ''Testing full cycle'',
                       createdAt = 1000, updatedAt = 1001\<rparr>], nextId = 3\<rparr>)
   \<and> toString 2 = ascii ''2''
   \<and> getNoteById (ascii ''2'') (snd (createNote 1000 1001 (JStr ''CRUD Test'') (JStr ''Testing full cycle'')
        (state_after [Create 1 1 (JStr ''a'') (JStr ''b''), Delete (ascii ''1'')]))) =
      (\<lparr>status = 200, success = True, message = None, count = None,
        data = Some (One \<lparr>id_note = 2, title = JStr ''CRUD Test'',
                           content = JStr ''Testing full cycle'',
                           createdAt = 1000, updatedAt = 1001\<rparr>)\<rparr>,
       snd (createNote 1000 1001 (JStr ''CRUD Test'') (JStr ''Testing full cycle'')
        (state_after [Create 1 1 (JStr ''a'') (JStr ''b''), Delete (ascii ''1'')])))"
proof -
  have t: "truthy (JStr ''CRUD Test'')" "truthy (JStr ''Testing full cycle'')" by simp_all
  have s: "state_after [Create 1 1 (JStr ''a'') (JStr ''b''), Delete (ascii ''1'')] = \<lparr>notes_arr = [], nextId = 2\<rparr>"
    by code_simp
  have d: "toString 2 = ascii ''2''" by code_simp
  from create_then_get [OF t, of "[Create 1 1 (JStr ''a'') (JStr ''b''), Delete (ascii ''1'')]" 1000 1001 "ascii ''2''"]
  show ?thesis
    unfolding s using t d by auto
qed

text \<open>
  Claim C6 as stated asks for \<^verbatim>\<open>createdAt = updatedAt\<close>. The two fields come from two
  evaluations of \<^verbatim>\<open>new Date()\<close>; when the clock ticks between them, from 1000 to 1001
  here, the stored and returned note carries two different timestamps.
\<close>

theorem create_two_clock_readings_counterexample:
  "truthy (JStr ''a'') \<and> truthy (JStr ''b'')
   \<and> createNote 1000 1001 (JStr ''a'') (JStr ''b'') initial =
      (\<lparr>status = 201, success = True, message = Some ''Note created successfully'', count = None,
        data = Some (One \<lparr>id_note = 1, title = JStr ''a'', content = JStr ''b'',
                           createdAt = 1000, updatedAt = 1001\<rparr>)\<rparr>,
       \<lparr>notes_arr = [\<lparr>id_note = 1, title = JStr ''a'', content = JStr ''b'',
                       createdAt = 1000, updatedAt = 1001\<rparr>], nextId = 2\<rparr>)
   \<and> map createdAt (notes_arr (snd (createNote 1000 1001 (JStr ''a'') (JStr ''b'') initial)))
       \<noteq> map updatedAt (notes_arr (snd (createNote 1000 1001 (JStr ''a'') (JStr ''b'') initial)))"
  by (simp add: createNote_def newNote_def initial_def Let_def)

lemma handle_time:
  assumes old: "\<forall>n \<in> set (notes_arr s).
      createdAt n \<le> updatedAt n \<and> (\<forall>u \<in> set (readings c @ later). updatedAt n \<le> u)"
    and mono: "sorted (readings c @ later)"
  shows "\<forall>n \<in> set (notes_arr (snd (handle c s))).
      createdAt n \<le> updatedAt n \<and> (\<forall>u \<in> set later. updatedAt n \<le> u)"
proof (cases c)
  case (Create t1 t2 ttl cnt)
  show ?thesis
  proof (cases "truthy ttl \<and> truthy cnt")
    case True
    with Create old mono show ?thesis
      by (auto simp: createNote_accepted newNote_def)
  next
    case False
    with Create old show ?thesis
      by (auto simp: createNote_rejected)
  qed
next
  case GetAll
  with old show ?thesis by (simp add: getAllNotes_def)
next
  case (GetById ident)
  with old show ?thesis by (simp add: getNoteById_def split: option.split)
next
  case (Update t ident ttl cnt)
  show ?thesis
  proof (cases "findIndex (matches ident) (notes_arr s)")
    case None
    with Update old show ?thesis by (simp add: updateNote_missing)
  next
    case (Some i)
    from findIndex_Some [OF Some] have len: "i < length (notes_arr s)" by simp
    then have target: "notes_arr s ! i \<in> set (notes_arr s)" by simp
    show ?thesis
    proof
      fix n assume "n \<in> set (notes_arr (snd (handle c s)))"
      then have "n \<in> set ((notes_arr s)[i := updated t ttl cnt (notes_arr s ! i)])"
        using Update by (simp add: updateNote_found [OF Some])
      then have "n = updated t ttl cnt (notes_arr s ! i) \<or> n \<in> set (notes_arr s)"
        using set_update_subset_insert by fastforce
      then show "createdAt n \<le> updatedAt n \<and> (\<forall>u \<in> set later. updatedAt n \<le> u)"
      proof
        assume n: "n = updated t ttl cnt (notes_arr s ! i)"
        from old target Update have "createdAt (notes_arr s ! i) \<le> t" by fastforce
        moreover from mono Update have "\<forall>u \<in> set later. t \<le> u" by simp
        ultimately show ?thesis using n by (simp add: updated_def)
      next
        assume "n \<in> set (notes_arr s)"
        with old show ?thesis by simp
      qed
    qed
  qed
next
  case (Delete ident)
  show ?thesis
  proof (cases "findIndex (matches ident) (notes_arr s)")
    case None
    with Delete old show ?thesis by (simp add: deleteNote_missing)
  next
    case (Some i)
    with Delete old show ?thesis
      by (auto simp: deleteNote_found dest: in_set_takeD in_set_dropD)
  qed
qed

lemma run_time:
  assumes "\<forall>n \<in> set (notes_arr s).
      createdAt n \<le> updatedAt n \<and> (\<forall>u \<in> set (clock cs @ later). updatedAt n \<le> u)"
    and "sorted (clock cs @ later)"
  shows "\<forall>n \<in> set (notes_arr (snd (run cs s))).
      createdAt n \<le> updatedAt n \<and> (\<forall>u \<in> set later. updatedAt n \<le> u)"
  using assms
proof (induction cs arbitrary: s)
  case Nil
  then show ?case by (simp add: clock_def)
next
  case (Cons c cs)
  have split: "clock (c # cs) @ later = readings c @ (clock cs @ later)"
    by (simp add: clock_def)
  from Cons.prems have "\<forall>n \<in> set (notes_arr (snd (handle c s))).
      createdAt n \<le> updatedAt n \<and> (\<forall>u \<in> set (clock cs @ later). updatedAt n \<le> u)"
    unfolding split by (rule handle_time)
  moreover from Cons.prems(2) have "sorted (clock cs @ later)"
    unfolding split by (simp add: sorted_append)
  ultimately show ?case
    unfolding snd_run_Cons by (rule Cons.IH)
qed

text \<open>
  Claim C8, as amended. When the clock readings taken during a sequence of calls never
  decrease, every note in the store afterwards has \<^verbatim>\<open>createdAt\<close> at most \<^verbatim>\<open>updatedAt\<close>, and
  its \<^verbatim>\<open>updatedAt\<close> is at most any reading \<open>t\<close> taken after those: the reading an update
  would store next does not move \<^verbatim>\<open>updatedAt\<close> back.
\<close>

theorem createdAt_le_updatedAt:
  assumes "sorted (clock cs)" and "n \<in> set (notes_arr (state_after cs))"
  shows "createdAt n \<le> updatedAt n \<and> (sorted (clock cs @ [t]) \<longrightarrow> updatedAt n \<le> t)"
proof -
  have "\<forall>n \<in> set (notes_arr (snd (run cs initial))).
      createdAt n \<le> updatedAt n \<and> (\<forall>u \<in> set []. updatedAt n \<le> u)"
    using assms(1) by (intro run_time) (simp_all add: initial_def)
  with assms(2) have now: "createdAt n \<le> updatedAt n"
    by (simp add: state_after_def)
  have "updatedAt n \<le> t" if "sorted (clock cs @ [t])"
  proof -
    have "\<forall>n \<in> set (notes_arr (snd (run cs initial))).
        createdAt n \<le> updatedAt n \<and> (\<forall>u \<in> set [t]. updatedAt n \<le> u)"
      using that by (intro run_time) (simp_all add: initial_def)
    with assms(2) show ?thesis by (simp add: state_after_def)
  qed
  with now show ?thesis by simp
qed

theorem createdAt_le_updatedAt_witness:
  "sorted (clock [Create 10 11 (JStr ''a'') (JStr ''b''), Update 20 (ascii ''1'') (JStr ''c'') JUndefined])
   \<and> \<lparr>id_note = 1, title = JStr ''c'', content = JStr ''b'', createdAt = 10, updatedAt = 20\<rparr>
       \<in> set (notes_arr (state_after
           [Create 10 11 (JStr ''a'') (JStr ''b''), Update 20 (ascii ''1'') (JStr ''c'') JUndefined]))
   \<and> createdAt \<lparr>id_note = 1, title = JStr ''c'', content = JStr ''b'',
                   createdAt = 10, updatedAt = 20\<rparr>
       \<le> updatedAt \<lparr>id_note = 1, title = JStr ''c'', content = JStr ''b'',
                       createdAt = 10, updatedAt = 20\<rparr>
   \<and> sorted (clock [Create 10 11 (JStr ''a'') (JStr ''b''),
                      Update 20 (ascii ''1'') (JStr ''c'') JUndefined] @ [25])
   \<and> updatedAt \<lparr>id_note = 1, title = JStr ''c'', content = JStr ''b'',
                   createdAt = 10, updatedAt = 20\<rparr> \<le> 25"
proof -
  have c: "clock [Create 10 11 (JStr ''a'') (JStr ''b''), Update 20 (ascii ''1'') (JStr ''c'') JUndefined]
      = [10, 11, 20]"
    by (simp add: clock_def)
  have s: "state_after [Create 10 11 (JStr ''a'') (JStr ''b''), Update 20 (ascii ''1'') (JStr ''c'') JUndefined]
      = \<lparr>notes_arr = [\<lparr>id_note = 1, title = JStr ''c'', content = JStr ''b'',
                         createdAt = 10, updatedAt = 20\<rparr>], nextId = 2\<rparr>"
    by code_simp
  have h1: "sorted (clock [Create 10 11 (JStr ''a'') (JStr ''b''),
                           Update 20 (ascii ''1'') (JStr ''c'') JUndefined])"
    unfolding c by simp
  have h2: "\<lparr>id_note = 1, title = JStr ''c'', content = JStr ''b'', createdAt = 10, updatedAt = 20\<rparr>
       \<in> set (notes_arr (state_after
           [Create 10 11 (JStr ''a'') (JStr ''b''), Update 20 (ascii ''1'') (JStr ''c'') JUndefined]))"
    unfolding s by simp
  have h3: "sorted (clock [Create 10 11 (JStr ''a'') (JStr ''b''),
                           Update 20 (ascii ''1'') (JStr ''c'') JUndefined] @ [25])"
    unfolding c by simp
  from createdAt_le_updatedAt [OF h1 h2, of 25] h1 h2 h3
  show ?thesis by blast
qed

text \<open>
  Claim C8 as stated holds of every note after every operation. The handlers store the
  readings of the wall clock as they come and compare nothing: when the clock is set back
  between a creation (readings 10 and 11) and an update (reading 5), the stored note has
  its \<^verbatim>\<open>updatedAt\<close> before its \<^verbatim>\<open>createdAt\<close>.
\<close>

theorem clock_set_back_counterexample:
  "state_after [Create 10 11 (JStr ''a'') (JStr ''b''),
                Update 5 (ascii ''1'') (JStr ''c'') JUndefined] =
     \<lparr>notes_arr = [\<lparr>id_note = 1, title = JStr ''c'', content = JStr ''b'',
                     createdAt = 10, updatedAt = 5\<rparr>], nextId = 2\<rparr>
   \<and> \<not> createdAt \<lparr>id_note = 1, title = JStr ''c'', content = JStr ''b'',
                     createdAt = 10, updatedAt = 5\<rparr>
         \<le> updatedAt \<lparr>id_note = 1, title = JStr ''c'', content = JStr ''b'',
                         createdAt = 10, updatedAt = 5\<rparr>"
proof -
  have "state_after [Create 10 11 (JStr ''a'') (JStr ''b''),
                     Update 5 (ascii ''1'') (JStr ''c'') JUndefined] =
     \<lparr>notes_arr = [\<lparr>id_note = 1, title = JStr ''c'', content = JStr ''b'',
                     createdAt = 10, updatedAt = 5\<rparr>], nextId = 2\<rparr>"
    by code_simp
  then show ?thesis by simp
qed

end
